theory Spec2Isabelle
  imports Main
begin

section \<open>JavaScript values and the object store\<close>

text \<open>
  The mixin of \<^verbatim>\<open>addon/mixins/validator.js\<close> mutates objects that are shared between
  the declared metadata of a model and the validators it builds, so objects live in a
  store: a total map from addresses to objects together with the next free address.
  A value is a primitive, a function (a class) or a reference into the store.
\<close>

type_synonym addr = nat

datatype jsval =
    JUndefined
  | JNull
  | JBool bool
  | JNum int
  | JStr string
  | JFun nat
  | JRef addr

text \<open>
  An object keeps its own enumerable properties in enumeration order (the order of
  \<^verbatim>\<open>Object.keys\<close>); an array keeps its elements and, after them, its named properties.
\<close>

datatype jsobj =
    PlainObj "(string \<times> jsval) list"
  | ArrObj "jsval list" "(string \<times> jsval) list"

datatype error =
    TypeError
  | AssertionFailed string

text \<open>\<^verbatim>\<open>typeof v\<close>: null and every reference (objects and arrays) are \<^verbatim>\<open>'object'\<close>.\<close>

fun js_typeof :: "jsval \<Rightarrow> string" where
  "js_typeof JUndefined = ''undefined''"
| "js_typeof JNull = ''object''"
| "js_typeof (JBool b) = ''boolean''"
| "js_typeof (JNum n) = ''number''"
| "js_typeof (JStr s) = ''string''"
| "js_typeof (JFun f) = ''function''"
| "js_typeof (JRef a) = ''object''"

text \<open>Truthiness, as tested by \<^verbatim>\<open>a || b\<close>.\<close>

fun truthy :: "jsval \<Rightarrow> bool" where
  "truthy JUndefined = False"
| "truthy JNull = False"
| "truthy (JBool b) = b"
| "truthy (JNum n) = (n \<noteq> 0)"
| "truthy (JStr s) = (s \<noteq> [])"
| "truthy (JFun f) = True"
| "truthy (JRef a) = True"

definition js_or :: "jsval \<Rightarrow> jsval \<Rightarrow> jsval" where
  "js_or a b = (if truthy a then a else b)"

text \<open>
  Assignment \<^verbatim>\<open>o[k] = v\<close> on the property list: an existing key keeps its place, a new
  key goes to the end.
\<close>

fun set_entry :: "string \<Rightarrow> jsval \<Rightarrow> (string \<times> jsval) list \<Rightarrow> (string \<times> jsval) list" where
  "set_entry k v [] = [(k, v)]"
| "set_entry k v ((k', v') # ps) =
     (if k = k' then (k, v) # ps else (k', v') # set_entry k v ps)"

fun obj_set :: "string \<Rightarrow> jsval \<Rightarrow> jsobj \<Rightarrow> jsobj" where
  "obj_set k v (PlainObj ps) = PlainObj (set_entry k v ps)"
| "obj_set k v (ArrObj es ps) = ArrObj es (set_entry k v ps)"

fun obj_get :: "string \<Rightarrow> jsobj \<Rightarrow> jsval" where
  "obj_get k (PlainObj ps) = (case map_of ps k of Some v \<Rightarrow> v | None \<Rightarrow> JUndefined)"
| "obj_get k (ArrObj es ps) = (case map_of ps k of Some v \<Rightarrow> v | None \<Rightarrow> JUndefined)"

text \<open>Decimal index keys of array elements and string characters.\<close>

definition digit_char :: "nat \<Rightarrow> char" where
  "digit_char d = ''0123456789'' ! d"

function dec_str :: "nat \<Rightarrow> string" where
  "dec_str n = (if n < 10 then [digit_char n] else dec_str (n div 10) @ [digit_char (n mod 10)])"
  by pat_completeness auto
termination
  by (relation "measure id") auto

definition index_entries :: "jsval list \<Rightarrow> (string \<times> jsval) list" where
  "index_entries es = map (\<lambda>i. (dec_str i, es ! i)) [0..<length es]"

text \<open>The own enumerable properties of an object, in the order of \<^verbatim>\<open>Object.keys\<close>.\<close>

fun own_entries :: "jsobj \<Rightarrow> (string \<times> jsval) list" where
  "own_entries (PlainObj ps) = ps"
| "own_entries (ArrObj es ps) = index_entries es @ ps"

section \<open>The container, the model and the mutable world\<close>

text \<open>
  Events sent to the record's state machine. \<^verbatim>\<open>errors.trigger('becameInvalid')\<close> reaches
  the state machine through the handler the record registered on its errors object; it is
  the event \<open>TriggerBecameInvalid\<close>.
\<close>

datatype event = BecameValid | WillCommit | BecomeDirty | TriggerBecameInvalid

text \<open>
  Everything the mixin consumes from its collaborators is a parameter:
  the container's \<^verbatim>\<open>lookup\<close> and \<^verbatim>\<open>lookupFactory\<close> (or \<^verbatim>\<open>_lookupFactory\<close>, whichever the
  container can invoke), \<^verbatim>\<open>Ember.String.camelize\<close>, the behaviour of a validator class,
  the message resolver's \<^verbatim>\<open>resolveMessage\<close> method (\<open>None\<close> when the resolved value has
  no such method), the entry \<^verbatim>\<open>error\<close> of the default messages,
  the record's state machine (\<^verbatim>\<open>isValid\<close>, \<^verbatim>\<open>isDeleted\<close>, \<^verbatim>\<open>send\<close>), and what \<^verbatim>\<open>Ember.run\<close>
  does with an error raised by the method it runs: \<open>run_rethrows\<close> holds when the error
  propagates to the caller, and does not hold when Ember hands it to its error handler and
  \<^verbatim>\<open>Ember.run\<close> returns (which of the two depends on the Ember version and on its mode).

  A validator is synchronous and pure: \<open>run_validator c tk ps name v\<close> is what
  \<^verbatim>\<open>validate(name, v, attribute, record)\<close> returns for an instance of class \<open>c\<close> whose
  class carries the type key \<open>tk\<close> at that moment and which \<^verbatim>\<open>create\<close> built from the
  properties \<open>ps\<close>.
\<close>

record 'st env =
  lookup :: "string \<Rightarrow> jsval"
  lookupFactory :: "string \<Rightarrow> jsval"
  camelize :: "string \<Rightarrow> string"
  run_validator :: "nat \<Rightarrow> string option \<Rightarrow> (string \<times> jsval) list \<Rightarrow> string \<Rightarrow> jsval \<Rightarrow> jsval"
  resolveMessage :: "jsval \<Rightarrow> (string \<Rightarrow> jsval) option"
  defaultError :: jsval
  isValid :: "'st \<Rightarrow> bool"
  isDeleted :: "'st \<Rightarrow> bool"
  send :: "event \<Rightarrow> 'st \<Rightarrow> 'st"
  run_rethrows :: bool

text \<open>
  Modelled from the spec: \<^verbatim>\<open>attrName\<close> of \<^verbatim>\<open>addon/utils\<close> is not among the sources; the
  Field Descriptor of the spec carries its field name, here \<open>fname\<close>. \<open>faddr\<close> is the
  address of the attribute (or relationship) meta object, which holds \<^verbatim>\<open>options\<close> and
  receives \<^verbatim>\<open>parentTypeKey\<close>.
\<close>

record field =
  fname :: string
  faddr :: addr

text \<open>
  The parts of a record the pass only reads: the attributes and relationships in the
  order \<^verbatim>\<open>eachAttribute\<close> and \<^verbatim>\<open>eachRelationship\<close> enumerate them, the current field values
  (\<^verbatim>\<open>this.get(name)\<close>), and \<^verbatim>\<open>constructor.modelName || constructor.typeKey\<close>.
\<close>

record model =
  attributes :: "field list"
  relationships :: "field list"
  field_value :: "string \<Rightarrow> jsval"
  modelName :: jsval

text \<open>
  Modelled from the spec: the Error Collection (Ember Data's errors object) is not among
  the sources; the spec describes it as a mapping from field name to an ordered sequence of
  messages where adding never overwrites, emptiness means no entry at all, and clearing
  removes everything. It is the list of (field name, message) entries in insertion order.
\<close>

type_synonym error_collection = "(string \<times> string) list"

text \<open>
  What a pass can change: the store, the type key stamped on each validator class, the
  record's Error Collection and the state of its state machine.
\<close>

record 'st world =
  heap :: "addr \<Rightarrow> jsobj"
  nxt :: addr
  typeKeys :: "nat \<Rightarrow> string option"
  errors :: error_collection
  status :: 'st

text \<open>The instance \<^verbatim>\<open>validatorClass.create(value)\<close> returns: its class, the configuration
  object it was given, and the properties \<^verbatim>\<open>create\<close> copied from it.\<close>

record validator =
  vclass :: nat
  vconfig :: addr
  vprops :: "(string \<times> jsval) list"

text \<open>A rule descriptor \<^verbatim>\<open>{type, value, attribute}\<close>.\<close>

record descriptor =
  dtype :: string
  dvalue :: jsval
  dattribute :: addr


text \<open>
  Modelled from the spec: \<^verbatim>\<open>ValidationError\<close> of \<^verbatim>\<open>addon/error\<close> is not among the sources;
  the spec describes it as a top-level message together with the Error Collection.
\<close>

record validation_error =
  message :: jsval
  verrors :: error_collection

text \<open>What \<^verbatim>\<open>save\<close> returns: the promise of the underlying commit (\<^verbatim>\<open>this._super()\<close>, which
  is thereby invoked) or a rejection carrying a Validation Error.\<close>

datatype outcome = Committed | Rejected validation_error

section \<open>Ember utilities\<close>

text \<open>The value of an own property when it is a number.\<close>

definition numeric_prop :: "string \<Rightarrow> (string \<times> jsval) list \<Rightarrow> int option" where
  "numeric_prop k ps = (case map_of ps k of Some (JNum n) \<Rightarrow> Some n | _ \<Rightarrow> None)"

text \<open>
  \<^verbatim>\<open>Ember.isEmpty\<close>: undefined and null are empty; a value with a numeric \<^verbatim>\<open>size\<close> is empty
  when the size is 0; otherwise a value (not a function) with a numeric \<^verbatim>\<open>length\<close> is empty
  when the length is 0; nothing else is empty. So the empty string and the empty array are
  empty, and so is a plain object such as \<^verbatim>\<open>{size: 0}\<close> or \<^verbatim>\<open>{length: 0}\<close>.
\<close>

fun ember_isEmpty :: "(addr \<Rightarrow> jsobj) \<Rightarrow> jsval \<Rightarrow> bool" where
  "ember_isEmpty h JUndefined = True"
| "ember_isEmpty h JNull = True"
| "ember_isEmpty h (JStr s) = (s = [])"
| "ember_isEmpty h (JRef a) =
     (case h a of
        ArrObj es ps \<Rightarrow>
          (case numeric_prop ''size'' ps of Some n \<Rightarrow> n = 0 | None \<Rightarrow> es = [])
      | PlainObj ps \<Rightarrow>
          (case numeric_prop ''size'' ps of
             Some n \<Rightarrow> n = 0
           | None \<Rightarrow> (case numeric_prop ''length'' ps of Some n \<Rightarrow> n = 0 | None \<Rightarrow> False)))"
| "ember_isEmpty h v = False"

text \<open>
  \<^verbatim>\<open>Ember.isArray\<close>: arrays, and array-like objects, that is plain objects with a numeric
  \<^verbatim>\<open>length\<close>.
\<close>

fun ember_isArray :: "(addr \<Rightarrow> jsobj) \<Rightarrow> jsval \<Rightarrow> bool" where
  "ember_isArray h (JRef a) =
     (case h a of ArrObj es ps \<Rightarrow> True | PlainObj ps \<Rightarrow> numeric_prop ''length'' ps \<noteq> None)"
| "ember_isArray h v = False"

text \<open>\<^verbatim>\<open>Ember.get(obj, key)\<close> asserts that \<^verbatim>\<open>obj\<close> is neither undefined nor null.\<close>

fun ember_get :: "(addr \<Rightarrow> jsobj) \<Rightarrow> jsval \<Rightarrow> string \<Rightarrow> error + jsval" where
  "ember_get h JUndefined k =
     Inl (AssertionFailed (''Cannot call get with '' @ [CHR 0x27] @ k @ [CHR 0x27]
                           @ '' on an undefined object.''))"
| "ember_get h JNull k =
     Inl (AssertionFailed (''Cannot call get with '' @ [CHR 0x27] @ k @ [CHR 0x27]
                           @ '' on an undefined object.''))"
| "ember_get h (JRef a) k = Inr (obj_get k (h a))"
| "ember_get h v k = Inr JUndefined"

text \<open>
  \<^verbatim>\<open>Object.keys(v)\<close> paired with \<^verbatim>\<open>v[key]\<close>: a TypeError on undefined and null, the own
  properties of an object, the characters of a string, nothing for other primitives.
\<close>

fun object_entries :: "(addr \<Rightarrow> jsobj) \<Rightarrow> jsval \<Rightarrow> error + (string \<times> jsval) list" where
  "object_entries h JUndefined = Inl TypeError"
| "object_entries h JNull = Inl TypeError"
| "object_entries h (JRef a) = Inr (own_entries (h a))"
| "object_entries h (JStr s) = Inr (index_entries (map (\<lambda>c. JStr [c]) s))"
| "object_entries h v = Inr []"

text \<open>
  \<^verbatim>\<open>validations.forEach\<close>: the elements of an array; a plain object has no \<^verbatim>\<open>forEach\<close>, and
  calling it is a TypeError.
\<close>

fun array_each :: "jsobj \<Rightarrow> error + jsval list" where
  "array_each (ArrObj es ps) = Inr es"
| "array_each (PlainObj ps) = Inl TypeError"

section \<open>Lookups (lines 26 to 42)\<close>

definition lookupMessageResolver :: "'st env \<Rightarrow> jsval" where
  "lookupMessageResolver container =
     js_or (lookup container ''resolver:validation-message'')
           (lookup container ''ember-cli-data-validation@resolver:validation-message'')"

definition lookupValidtorFactory :: "'st env \<Rightarrow> string \<Rightarrow> jsval" where
  "lookupValidtorFactory container key =
     js_or (lookupFactory container (''validator:'' @ key))
           (lookupFactory container (''ember-cli-data-validation@validator:'' @ key))"

section \<open>Validator instantiation (lines 44 to 67)\<close>

text \<open>\<^verbatim>\<open>Ember.merge(value, {attribute: .., messageResolver: ..})\<close> on the object itself.\<close>

definition merge_config :: "addr \<Rightarrow> jsval \<Rightarrow> jsobj \<Rightarrow> jsobj" where
  "merge_config attribute messageResolver obj =
     obj_set ''messageResolver'' messageResolver (obj_set ''attribute'' (JRef attribute) obj)"

definition assert_message :: "string \<Rightarrow> string" where
  "assert_message typeKey = ''Could not find Validator `'' @ typeKey @ ''`.''"

text \<open>
  The assertion comes first; \<^verbatim>\<open>Ember.assert\<close> raises when its condition is false. A value
  whose \<^verbatim>\<open>typeof\<close> is not \<^verbatim>\<open>'object'\<close> is put into a new object under the rule type; every other value is merged into as it is, which is a
  TypeError on null. Then the class is stamped and the instance created. A raise is the
  result \<open>Inl\<close>; the world reached at the raise is not returned.
\<close>

definition lookupValidator ::
  "'st env \<Rightarrow> descriptor \<Rightarrow> 'st world \<Rightarrow> error + (validator \<times> 'st world)" where
  "lookupValidator container obj w =
     (let typeKey = dtype obj;
          validatorClass = lookupValidtorFactory container typeKey
      in case validatorClass of
           JFun c \<Rightarrow>
             (let messageResolver = lookupMessageResolver container;
                  stamp = (\<lambda>a w'. Inr (\<lparr>vclass = c, vconfig = a, vprops = own_entries (heap w' a)\<rparr>,
                             w'\<lparr>typeKeys := (typeKeys w')(c \<mapsto> camelize container typeKey)\<rparr>))
              in if js_typeof (dvalue obj) \<noteq> ''object'' then
                   stamp (nxt w)
                     (w\<lparr>heap := (heap w)(nxt w :=
                            merge_config (dattribute obj) messageResolver
                              (PlainObj [(dtype obj, dvalue obj)])),
                        nxt := Suc (nxt w)\<rparr>)
                 else
                   (case dvalue obj of
                      JRef a \<Rightarrow>
                        stamp a (w\<lparr>heap := (heap w)(a :=
                            merge_config (dattribute obj) messageResolver (heap w a))\<rparr>)
                    | _ \<Rightarrow> Inl TypeError))
         | _ \<Rightarrow> Inl (AssertionFailed (assert_message typeKey)))"

section \<open>Rule descriptors and validators of an attribute (lines 85 to 114)\<close>

text \<open>The two nested \<^verbatim>\<open>forEach\<close> loops of lines 99 to 109.\<close>

fun descriptors_of :: "(addr \<Rightarrow> jsobj) \<Rightarrow> addr \<Rightarrow> jsval list \<Rightarrow> error + descriptor list" where
  "descriptors_of h attribute [] = Inr []"
| "descriptors_of h attribute (validation # rest) =
     (case object_entries h validation of
        Inl e \<Rightarrow> Inl e
      | Inr keys \<Rightarrow>
          (case descriptors_of h attribute rest of
             Inl e \<Rightarrow> Inl e
           | Inr ds \<Rightarrow>
               Inr (map (\<lambda>(name, v). \<lparr>dtype = name, dvalue = v, dattribute = attribute\<rparr>) keys @ ds)))"

text \<open>Lines 86 to 109: from the attribute's options to the list of descriptors.\<close>

definition ruleDescriptors :: "(addr \<Rightarrow> jsobj) \<Rightarrow> addr \<Rightarrow> error + descriptor list" where
  "ruleDescriptors h attribute =
     (let meta = obj_get ''options'' (h attribute)
      in case ember_get h meta ''validation'' of
           Inl e \<Rightarrow> Inl e
         | Inr validations \<Rightarrow>
             if ember_isEmpty h validations then Inr []
             else if \<not> ember_isArray h validations then
               descriptors_of h attribute [validations]
             else
               (case validations of
                  JRef a \<Rightarrow>
                    (case array_each (h a) of
                       Inl e \<Rightarrow> Inl e
                     | Inr es \<Rightarrow> descriptors_of h attribute es)
                | _ \<Rightarrow> Inl TypeError))"

text \<open>Line 111: \<^verbatim>\<open>validators.map(lookupValidator)\<close>, in order, on the changing world.\<close>

fun lookup_all ::
  "'st env \<Rightarrow> descriptor list \<Rightarrow> 'st world \<Rightarrow> error + (validator list \<times> 'st world)" where
  "lookup_all container [] w = Inr ([], w)"
| "lookup_all container (d # ds) w =
     (case lookupValidator container d w of
        Inl e \<Rightarrow> Inl e
      | Inr (v, w') \<Rightarrow>
          (case lookup_all container ds w' of
             Inl e \<Rightarrow> Inl e
           | Inr (vs, w'') \<Rightarrow> Inr (v # vs, w'')))"

definition validatorsFor ::
  "'st env \<Rightarrow> addr \<Rightarrow> 'st world \<Rightarrow> error + (validator list \<times> 'st world)" where
  "validatorsFor container attribute w =
     (case ruleDescriptors (heap w) attribute of
        Inl e \<Rightarrow> Inl e
      | Inr ds \<Rightarrow> lookup_all container ds w)"

section \<open>Running the validators of an attribute (lines 129 to 153)\<close>

text \<open>Only a string result is added, by \<^verbatim>\<open>_add\<close> or \<^verbatim>\<open>add\<close>, whichever the errors object has.\<close>

fun addError :: "string \<Rightarrow> jsval \<Rightarrow> 'st world \<Rightarrow> 'st world" where
  "addError name (JStr result) w = w\<lparr>errors := errors w @ [(name, result)]\<rparr>"
| "addError name result w = w"

fun run_all :: "'st env \<Rightarrow> model \<Rightarrow> string \<Rightarrow> validator list \<Rightarrow> 'st world \<Rightarrow> 'st world" where
  "run_all container m name [] w = w"
| "run_all container m name (v # vs) w =
     (let result = run_validator container (vclass v) (typeKeys w (vclass v)) (vprops v)
                     name (field_value m name)
      in run_all container m name vs (addError name result w))"

definition validateAttribute ::
  "'st env \<Rightarrow> model \<Rightarrow> field \<Rightarrow> 'st world \<Rightarrow> error + 'st world" where
  "validateAttribute container m attribute w =
     (case validatorsFor container (faddr attribute) w of
        Inl e \<Rightarrow> Inl e
      | Inr (validators, w1) \<Rightarrow>
          (let name = fname attribute;
               w2 = w1\<lparr>heap := (heap w1)(faddr attribute :=
                       obj_set ''parentTypeKey'' (modelName m) (heap w1 (faddr attribute)))\<rparr>
           in Inr (run_all container m name validators w2)))"

section \<open>The validation pass and the commit guard (lines 167 to 217)\<close>

text \<open>
  The world in which \<^verbatim>\<open>_validateAttribute\<close> raises: reading the descriptors changes
  nothing, and a raise of \<^verbatim>\<open>lookupValidator\<close> comes before that call changes anything, so it
  is the world left by the validators built before the raise.
\<close>

fun lookup_raised :: "'st env \<Rightarrow> descriptor list \<Rightarrow> 'st world \<Rightarrow> 'st world" where
  "lookup_raised container [] w = w"
| "lookup_raised container (d # ds) w =
     (case lookupValidator container d w of
        Inl e \<Rightarrow> w
      | Inr (v, w') \<Rightarrow> lookup_raised container ds w')"

definition raised_in :: "'st env \<Rightarrow> field \<Rightarrow> 'st world \<Rightarrow> 'st world" where
  "raised_in container attribute w =
     (case ruleDescriptors (heap w) (faddr attribute) of
        Inl e \<Rightarrow> w
      | Inr ds \<Rightarrow> lookup_raised container ds w)"

text \<open>
  \<^verbatim>\<open>eachAttribute\<close> and \<^verbatim>\<open>eachRelationship\<close> with \<^verbatim>\<open>Ember.run(this, '_validateAttribute', ..)\<close>
  (lines 185 to 191). An error raised for a field either propagates and ends the pass, or
  is handed to Ember's error handler, and the pass goes on with the next field.
\<close>

fun validate_fields ::
  "'st env \<Rightarrow> model \<Rightarrow> field list \<Rightarrow> 'st world \<Rightarrow> error + 'st world" where
  "validate_fields container m [] w = Inr w"
| "validate_fields container m (f # fs) w =
     (case validateAttribute container m f w of
        Inl e \<Rightarrow>
          if run_rethrows container then Inl e
          else validate_fields container m fs (raised_in container f w)
      | Inr w' \<Rightarrow> validate_fields container m fs w')"

definition validate ::
  "'st env \<Rightarrow> model \<Rightarrow> bool \<Rightarrow> 'st world \<Rightarrow> error + (bool \<times> 'st world)" where
  "validate container m willCommit w =
     (let w1 = (if \<not> isValid container (status w)
                then w\<lparr>status := send container BecameValid (status w), errors := []\<rparr>
                else w)
      in if isDeleted container (status w1) then Inr (True, w1)
         else
           (let w2 = (if willCommit then w1\<lparr>status := send container WillCommit (status w1)\<rparr>
                      else w1)
            in case validate_fields container m (attributes m) w2 of
                 Inl e \<Rightarrow> Inl e
               | Inr w3 \<Rightarrow>
                   (case validate_fields container m (relationships m) w3 of
                      Inl e \<Rightarrow> Inl e
                    | Inr w4 \<Rightarrow>
                        (let valid = (errors w4 = [])
                         in if \<not> valid then
                              Inr (valid, w4\<lparr>status := send container TriggerBecameInvalid
                                              (send container BecomeDirty (status w4))\<rparr>)
                            else Inr (valid, w4)))))"

text \<open>Lines 14 to 24. Calling \<^verbatim>\<open>resolveMessage\<close> on undefined or null, or on a value
  without that method, is a TypeError.\<close>

definition createValidationError :: "'st env \<Rightarrow> 'st world \<Rightarrow> error + validation_error" where
  "createValidationError container w =
     (let messageResolver = lookupMessageResolver container;
          errs = errors w
      in case (if messageResolver = JUndefined \<or> messageResolver = JNull then None
               else resolveMessage container messageResolver) of
           None \<Rightarrow> Inl TypeError
         | Some resolve \<Rightarrow>
             (let msg = resolve ''error'';
                  msg' = (if ember_isEmpty (heap w) msg then defaultError container else msg)
              in Inr \<lparr>message = msg', verrors = errs\<rparr>))"

definition save ::
  "'st env \<Rightarrow> model \<Rightarrow> bool \<Rightarrow> 'st world \<Rightarrow> error + (outcome \<times> 'st world)" where
  "save container m validate_opt w =
     (if \<not> validate_opt then Inr (Committed, w)
      else
        (case validate container m True w of
           Inl e \<Rightarrow> Inl e
         | Inr (ok, w1) \<Rightarrow>
             if ok then Inr (Committed, w1)
             else
               (case createValidationError container w1 of
                  Inl e \<Rightarrow> Inl e
                | Inr ve \<Rightarrow> Inr (Rejected ve, w1))))"

section \<open>Notions the properties are stated with\<close>




text \<open>The messages among a list of validator results: the results that are strings.\<close>

fun failure_messages :: "jsval list \<Rightarrow> string list" where
  "failure_messages [] = []"
| "failure_messages (JStr s # rs) = s # failure_messages rs"
| "failure_messages (r # rs) = failure_messages rs"

text \<open>
  The normalized configuration of the spec: the rule value itself when it is an object,
  otherwise the object \<^verbatim>\<open>{[ruleType]: ruleValue}\<close>; in both cases with the attribute and the
  message resolver merged in.
\<close>

definition normalized_config ::
  "(addr \<Rightarrow> jsobj) \<Rightarrow> descriptor \<Rightarrow> jsval \<Rightarrow> (string \<times> jsval) list" where
  "normalized_config h d messageResolver =
     own_entries (merge_config (dattribute d) messageResolver
       (case dvalue d of JRef a \<Rightarrow> h a | _ \<Rightarrow> PlainObj [(dtype d, dvalue d)]))"

text \<open>An object has a named key; a later world keeps every key of the allocated objects
  of an earlier one.\<close>

fun named_props :: "jsobj \<Rightarrow> (string \<times> jsval) list" where
  "named_props (PlainObj ps) = ps"
| "named_props (ArrObj es ps) = ps"

definition has_key :: "string \<Rightarrow> jsobj \<Rightarrow> bool" where
  "has_key k obj = (k \<in> set (map fst (named_props obj)))"

definition keeps_keys :: "'st world \<Rightarrow> 'st world \<Rightarrow> bool" where
  "keeps_keys w w' =
     (nxt w \<le> nxt w' \<and> (\<forall>b < nxt w. \<forall>k. has_key k (heap w b) \<longrightarrow> has_key k (heap w' b)))"

section \<open>Notions for repeated passes\<close>

text \<open>The addresses among a list of values.\<close>

fun refs :: "jsval list \<Rightarrow> addr list" where
  "refs [] = []"
| "refs (JRef a # vs) = a # refs vs"
| "refs (v # vs) = refs vs"

text \<open>The rule objects lines 99 to 109 walk for an attribute: none, the single
  validation value, or the elements of the validation array.\<close>

definition field_rules :: "(addr \<Rightarrow> jsobj) \<Rightarrow> addr \<Rightarrow> jsval list" where
  "field_rules h attribute =
     (case ember_get h (obj_get ''options'' (h attribute)) ''validation'' of
        Inl e \<Rightarrow> []
      | Inr validations \<Rightarrow>
          if ember_isEmpty h validations then []
          else if \<not> ember_isArray h validations then [validations]
          else (case validations of
                  JRef a \<Rightarrow> (case array_each (h a) of Inl e \<Rightarrow> [] | Inr es \<Rightarrow> es)
                | _ \<Rightarrow> []))"

text \<open>The objects that make up the declaration of an attribute: its options object, its
  validation value and its rule objects.\<close>

definition struct_addrs :: "(addr \<Rightarrow> jsobj) \<Rightarrow> addr \<Rightarrow> addr list" where
  "struct_addrs h attribute =
     refs [obj_get ''options'' (h attribute)]
     @ (case ember_get h (obj_get ''options'' (h attribute)) ''validation'' of
          Inl e \<Rightarrow> [] | Inr validations \<Rightarrow> refs [validations])
     @ refs (field_rules h attribute)"

text \<open>The objects that occur as rule values in the declaration of an attribute.\<close>

definition value_addrs :: "(addr \<Rightarrow> jsobj) \<Rightarrow> addr \<Rightarrow> addr list" where
  "value_addrs h attribute =
     (case ruleDescriptors h attribute of Inl e \<Rightarrow> [] | Inr ds \<Rightarrow> refs (map dvalue ds))"

text \<open>The declared metadata are laid out as separate objects: no options object, validation
  value or rule object is also a rule value or an attribute meta object, no rule value is
  an attribute meta object, and all of them are allocated (below the next free address).
  Object literals written in a model declaration are laid out so.\<close>

definition separated :: "(addr \<Rightarrow> jsobj) \<Rightarrow> addr \<Rightarrow> addr list \<Rightarrow> bool" where
  "separated h n fs =
     (let structure = concat (map (struct_addrs h) fs);
          rule_values = concat (map (value_addrs h) fs)
      in (\<forall>a \<in> set structure. a \<notin> set rule_values \<and> a \<notin> set fs \<and> a < n)
       \<and> (\<forall>a \<in> set rule_values. a \<notin> set fs \<and> a < n)
       \<and> (\<forall>a \<in> set fs. a < n))"

text \<open>A world agrees with the store \<open>h0\<close> a pass started from: the structure objects \<open>S\<close> are
  unchanged, the attribute meta objects \<open>F\<close> still have their options, and the rule value
  objects \<open>V\<close> differ at most in what a merge overwrites.\<close>

definition agrees ::
  "(addr \<Rightarrow> jsobj) \<Rightarrow> addr \<Rightarrow> addr set \<Rightarrow> addr set \<Rightarrow> addr set \<Rightarrow> 'st world \<Rightarrow> bool" where
  "agrees h0 n0 S F V w =
     (n0 \<le> nxt w
      \<and> (\<forall>a \<in> S. heap w a = h0 a)
      \<and> (\<forall>a \<in> F. obj_get ''options'' (heap w a) = obj_get ''options'' (h0 a))
      \<and> (\<forall>a \<in> V. \<forall>f r. merge_config f r (heap w a) = merge_config f r (h0 a)))"

text \<open>The three classes of objects are disjoint and allocated below \<open>n0\<close>.\<close>

definition layout :: "addr \<Rightarrow> addr set \<Rightarrow> addr set \<Rightarrow> addr set \<Rightarrow> bool" where
  "layout n0 S F V =
     (S \<inter> V = {} \<and> S \<inter> F = {} \<and> V \<inter> F = {} \<and> (\<forall>a \<in> S \<union> F \<union> V. a < n0))"

text \<open>A descriptor for which \<^verbatim>\<open>lookupValidator\<close> returns: its class is resolved and its value is
  not null.\<close>

definition desc_ok :: "'st env \<Rightarrow> descriptor \<Rightarrow> bool" where
  "desc_ok container d =
     (js_typeof (lookupValidtorFactory container (dtype d)) = ''function''
      \<and> dvalue d \<noteq> JNull)"

text \<open>The class a descriptor resolves to.\<close>

definition the_class :: "'st env \<Rightarrow> descriptor \<Rightarrow> nat" where
  "the_class container d =
     (case lookupValidtorFactory container (dtype d) of JFun c \<Rightarrow> c | _ \<Rightarrow> 0)"

text \<open>The type keys stamped on the classes by the descriptors of an attribute, in order.\<close>

fun stamp_all :: "'st env \<Rightarrow> descriptor list \<Rightarrow> (nat \<Rightarrow> string option) \<Rightarrow> (nat \<Rightarrow> string option)" where
  "stamp_all container [] tk = tk"
| "stamp_all container (d # ds) tk =
     stamp_all container ds (tk(the_class container d \<mapsto> camelize container (dtype d)))"

text \<open>The results of the validators of a field, computed from the store the pass started
  from.\<close>

definition field_results :: "'st env \<Rightarrow> model \<Rightarrow> (addr \<Rightarrow> jsobj) \<Rightarrow> field \<Rightarrow> jsval list" where
  "field_results container m h0 f =
     (case ruleDescriptors h0 (faddr f) of
        Inl e \<Rightarrow> []
      | Inr ds \<Rightarrow>
          map (\<lambda>d. run_validator container (the_class container d)
                     (stamp_all container ds Map.empty (the_class container d))
                     (normalized_config h0 d (lookupMessageResolver container))
                     (fname f) (field_value m (fname f))) ds)"

text \<open>The validators of a field can all be built.\<close>

definition field_ok :: "'st env \<Rightarrow> (addr \<Rightarrow> jsobj) \<Rightarrow> field \<Rightarrow> bool" where
  "field_ok container h0 f =
     (case ruleDescriptors h0 (faddr f) of
        Inl e \<Rightarrow> False
      | Inr ds \<Rightarrow> list_all (desc_ok container) ds)"

text \<open>The classes \<open>S\<close>, \<open>F\<close>, \<open>V\<close> contain the objects of the declaration of a field.\<close>

definition covers ::
  "(addr \<Rightarrow> jsobj) \<Rightarrow> addr set \<Rightarrow> addr set \<Rightarrow> addr set \<Rightarrow> field \<Rightarrow> bool" where
  "covers h0 S F V f =
     (faddr f \<in> F \<and> set (struct_addrs h0 (faddr f)) \<subseteq> S
      \<and> set (value_addrs h0 (faddr f)) \<subseteq> V)"

text \<open>The entries a pass adds to the Error Collection for a list of fields; a field whose
  validators cannot all be built adds none.\<close>

definition field_messages ::
  "'st env \<Rightarrow> model \<Rightarrow> (addr \<Rightarrow> jsobj) \<Rightarrow> field \<Rightarrow> error_collection" where
  "field_messages container m h0 f =
     (if field_ok container h0 f
      then map (Pair (fname f)) (failure_messages (field_results container m h0 f))
      else [])"

definition pass_messages ::
  "'st env \<Rightarrow> model \<Rightarrow> (addr \<Rightarrow> jsobj) \<Rightarrow> field list \<Rightarrow> error_collection" where
  "pass_messages container m h0 fs = concat (map (field_messages container m h0) fs)"

text \<open>Lines 170 to 173, lines 180 to 183 and lines 193 to 204 of \<^verbatim>\<open>validate\<close>, each on its own.\<close>

definition reset_invalid :: "'st env \<Rightarrow> 'st world \<Rightarrow> 'st world" where
  "reset_invalid container w =
     (if \<not> isValid container (status w)
      then w\<lparr>status := send container BecameValid (status w), errors := []\<rparr>
      else w)"

definition mark_commit :: "'st env \<Rightarrow> bool \<Rightarrow> 'st world \<Rightarrow> 'st world" where
  "mark_commit container willCommit w =
     (if willCommit then w\<lparr>status := send container WillCommit (status w)\<rparr> else w)"

definition conclude :: "'st env \<Rightarrow> 'st world \<Rightarrow> bool \<times> 'st world" where
  "conclude container w =
     (if errors w \<noteq> [] then
        (False, w\<lparr>status := send container TriggerBecameInvalid
                              (send container BecomeDirty (status w))\<rparr>)
      else (True, w))"

section \<open>A concrete record\<close>

text \<open>
  A small state machine in the manner of Ember Data's, a registry with two validator
  classes and a record with one field \<^verbatim>\<open>age\<close> declared
  \<^verbatim>\<open>validation: [{numeric: true}, {range: {min: 0}}]\<close>. The theorems below are evaluated
  on them.
\<close>

record flags =
  valid :: bool
  deleted :: bool
  dirty :: bool
  inFlight :: bool

fun flag_send :: "event \<Rightarrow> flags \<Rightarrow> flags" where
  "flag_send BecameValid s = s\<lparr>valid := True\<rparr>"
| "flag_send WillCommit s = s\<lparr>inFlight := True\<rparr>"
| "flag_send BecomeDirty s = s\<lparr>dirty := True\<rparr>"
| "flag_send TriggerBecameInvalid s = s\<lparr>valid := False, inFlight := False\<rparr>"

definition heap_of :: "jsobj list \<Rightarrow> addr \<Rightarrow> jsobj" where
  "heap_of objs a = (if a < length objs then objs ! a else PlainObj [])"

text \<open>Class 0 accepts numbers only; class 1 accepts numbers not below its \<^verbatim>\<open>min\<close>.\<close>

fun ex_run :: "nat \<Rightarrow> string option \<Rightarrow> (string \<times> jsval) list \<Rightarrow> string \<Rightarrow> jsval \<Rightarrow> jsval" where
  "ex_run 0 tk ps name (JNum n) = JUndefined"
| "ex_run 0 tk ps name v = JStr ''must be a number''"
| "ex_run (Suc c) tk ps name (JNum n) =
     (case map_of ps ''min'' of
        Some (JNum lo) \<Rightarrow> if n < lo then JStr ''is too small'' else JBool True
      | _ \<Rightarrow> JBool True)"
| "ex_run (Suc c) tk ps name v = JStr ''is out of range''"

definition ex_env :: "flags env" where
  "ex_env = \<lparr>
     lookup = (\<lambda>n. if n = ''resolver:validation-message'' then JRef 6 else JUndefined),
     lookupFactory = (\<lambda>n. if n = ''validator:numeric'' then JFun 0
                          else if n = ''ember-cli-data-validation@validator:range'' then JFun 1
                          else JUndefined),
     camelize = (\<lambda>s. s),
     run_validator = ex_run,
     resolveMessage = (\<lambda>r. if r = JRef 6 then Some (\<lambda>k. JUndefined) else None),
     defaultError = JStr ''Validation failed'',
     isValid = valid,
     isDeleted = deleted,
     send = flag_send,
     run_rethrows = True\<rparr>"

definition no_resolver_env :: "flags env" where
  "no_resolver_env = ex_env\<lparr>lookup := (\<lambda>n. JUndefined)\<rparr>"

definition ex_heap :: "addr \<Rightarrow> jsobj" where
  "ex_heap = heap_of
     [PlainObj [(''name'', JStr ''age''), (''options'', JRef 1)],
      PlainObj [(''validation'', JRef 2)],
      ArrObj [JRef 3, JRef 4] [],
      PlainObj [(''numeric'', JBool True)],
      PlainObj [(''range'', JRef 5)],
      PlainObj [(''min'', JNum 0)],
      PlainObj []]"

definition ex_model :: "jsval \<Rightarrow> model" where
  "ex_model v = \<lparr>attributes = [\<lparr>fname = ''age'', faddr = 0\<rparr>], relationships = [],
     field_value = (\<lambda>n. if n = ''age'' then v else JUndefined), modelName = JStr ''person''\<rparr>"

definition ex_world :: "flags \<Rightarrow> error_collection \<Rightarrow> flags world" where
  "ex_world s es = \<lparr>heap = ex_heap, nxt = 7, typeKeys = (\<lambda>c. None), errors = es, status = s\<rparr>"

definition fresh_flags :: flags where
  "fresh_flags = \<lparr>valid = True, deleted = False, dirty = False, inFlight = False\<rparr>"

definition deleted_valid :: flags where
  "deleted_valid = \<lparr>valid = True, deleted = True, dirty = True, inFlight = False\<rparr>"

definition deleted_invalid :: flags where
  "deleted_invalid = \<lparr>valid = False, deleted = True, dirty = True, inFlight = False\<rparr>"

definition unknown_rule :: descriptor where
  "unknown_rule = \<lparr>dtype = ''unknown'', dvalue = JBool True, dattribute = 0\<rparr>"

definition numeric_instance :: validator where
  "numeric_instance = \<lparr>vclass = 0, vconfig = 3, vprops = [(''numeric'', JBool True)]\<rparr>"

definition numeric_rule :: descriptor where
  "numeric_rule = \<lparr>dtype = ''numeric'', dvalue = JBool True, dattribute = 0\<rparr>"

definition range_rule :: descriptor where
  "range_rule = \<lparr>dtype = ''range'', dvalue = JRef 5, dattribute = 0\<rparr>"

definition null_rule :: descriptor where
  "null_rule = \<lparr>dtype = ''numeric'', dvalue = JNull, dattribute = 0\<rparr>"

definition age_field :: field where
  "age_field = \<lparr>fname = ''age'', faddr = 0\<rparr>"



text \<open>
  The spec's pair \<^verbatim>\<open>{minLength: 5}\<close> and \<^verbatim>\<open>{minLength: {min: 5}}\<close>, with a class registered
  for \<^verbatim>\<open>minLength\<close>; the object \<^verbatim>\<open>{min: 5}\<close> is at address 2.
\<close>

definition minLength_env :: "flags env" where
  "minLength_env =
     ex_env\<lparr>lookupFactory := (\<lambda>n. if n = ''validator:minLength'' then JFun 2 else JUndefined)\<rparr>"

definition minLength_world :: "flags world" where
  "minLength_world =
     \<lparr>heap = heap_of [PlainObj [(''name'', JStr ''title''), (''options'', JRef 1)],
                       PlainObj [],
                       PlainObj [(''min'', JNum 5)]],
      nxt = 3, typeKeys = (\<lambda>c. None), errors = [], status = fresh_flags\<rparr>"

definition minLength_shorthand :: descriptor where
  "minLength_shorthand = \<lparr>dtype = ''minLength'', dvalue = JNum 5, dattribute = 0\<rparr>"

definition minLength_explicit :: descriptor where
  "minLength_explicit = \<lparr>dtype = ''minLength'', dvalue = JRef 2, dattribute = 0\<rparr>"

text \<open>The rule value \<^verbatim>\<open>{min: 0}\<close> of the concrete record, and the world a pass leaves.\<close>

definition range_options :: "flags world \<Rightarrow> jsobj" where
  "range_options w = heap w 5"

definition after_validate :: "flags env \<Rightarrow> model \<Rightarrow> flags world \<Rightarrow> flags world" where
  "after_validate container m w =
     (case validate container m True w of Inl e \<Rightarrow> w | Inr (ok, w1) \<Rightarrow> w1)"

declare dec_str.simps [simp del]

lemmas ex_eval = validate_def validateAttribute_def validatorsFor_def ruleDescriptors_def
  lookupValidator_def lookupValidtorFactory_def lookupMessageResolver_def js_or_def
  merge_config_def index_entries_def numeric_prop_def Let_def
  ex_env_def ex_model_def ex_world_def ex_heap_def heap_of_def fresh_flags_def

section \<open>Deleted records\<close>

text \<open>
  C1 (as amended). A record that is deleted when line 176 asks is reported valid whatever
  the registry and the declared rules are, and nothing but the reset of lines 170 to 173
  has happened: a record that was valid on entry is returned as it was, with its Error
  Collection untouched; a record that was not valid on entry has received
  \<^verbatim>\<open>becameValid\<close> and its Error Collection is empty.
\<close>

theorem validate_deleted:
  assumes "isDeleted container
             (if isValid container (status w) then status w
              else send container BecameValid (status w))"
  shows "validate container m willCommit w =
           Inr (True, if isValid container (status w) then w
                      else w\<lparr>status := send container BecameValid (status w), errors := []\<rparr>)"
  using assms by (cases "isValid container (status w)") (simp_all add: validate_def Let_def)

theorem validate_deleted_witness:
  "validate ex_env (ex_model (JNum 3)) True (ex_world deleted_valid [(''age'', ''is too small'')])
     = Inr (True, ex_world deleted_valid [(''age'', ''is too small'')])
   \<and> validate ex_env (ex_model (JNum 3)) True (ex_world deleted_invalid [(''age'', ''is too small'')])
     = Inr (True, ex_world (deleted_invalid\<lparr>valid := True\<rparr>) [])"
  using validate_deleted [of ex_env "ex_world deleted_valid [(''age'', ''is too small'')]"
          "ex_model (JNum 3)" True]
    validate_deleted [of ex_env "ex_world deleted_invalid [(''age'', ''is too small'')]"
          "ex_model (JNum 3)" True]
  by (simp add: ex_env_def ex_world_def deleted_valid_def deleted_invalid_def)

text \<open>
  C1 as stated fails: a deleted record that is not valid and holds one error comes back
  with an empty Error Collection.
\<close>

theorem validate_deleted_clears_errors:
  "isDeleted ex_env (status (ex_world deleted_invalid [(''age'', ''is too small'')]))
   \<and> errors (ex_world deleted_invalid [(''age'', ''is too small'')]) = [(''age'', ''is too small'')]
   \<and> map_sum id fst
        (validate ex_env (ex_model (JNum 3)) True
           (ex_world deleted_invalid [(''age'', ''is too small'')])) = Inr True
   \<and> map_sum id (errors \<circ> snd)
        (validate ex_env (ex_model (JNum 3)) True
           (ex_world deleted_invalid [(''age'', ''is too small'')])) = Inr []"
  by (simp add: validate_def ex_env_def ex_world_def deleted_invalid_def Let_def)

section \<open>The commit guard\<close>

text \<open>
  C4 (as amended). When neither lookup name resolves a message resolver, building the
  Validation Error raises a TypeError. When a resolver with a \<^verbatim>\<open>resolveMessage\<close> method
  is resolved, the Validation Error is built; its message is the built-in default exactly
  when \<^verbatim>\<open>resolveMessage('error')\<close> is empty, and its errors are the record's Error
  Collection.
\<close>

theorem createValidationError_message:
  "(lookupMessageResolver container = JUndefined \<or> lookupMessageResolver container = JNull \<longrightarrow>
      createValidationError container w = Inl TypeError)
   \<and> (\<forall>resolve. lookupMessageResolver container \<noteq> JUndefined \<and>
         lookupMessageResolver container \<noteq> JNull \<and>
         resolveMessage container (lookupMessageResolver container) = Some resolve \<longrightarrow>
         createValidationError container w =
           Inr \<lparr>message = (if ember_isEmpty (heap w) (resolve ''error'') then defaultError container
                            else resolve ''error''),
                verrors = errors w\<rparr>)"
  by (auto simp: createValidationError_def Let_def)

theorem createValidationError_message_witness:
  "createValidationError no_resolver_env (ex_world fresh_flags []) = Inl TypeError
   \<and> createValidationError ex_env (ex_world fresh_flags [(''age'', ''is too small'')])
       = Inr \<lparr>message = JStr ''Validation failed'', verrors = [(''age'', ''is too small'')]\<rparr>"
  using createValidationError_message [of no_resolver_env "ex_world fresh_flags []"]
    createValidationError_message [of ex_env "ex_world fresh_flags [(''age'', ''is too small'')]"]
  by (simp add: no_resolver_env_def ex_env_def ex_world_def lookupMessageResolver_def js_or_def)

text \<open>
  C4 as stated fails: with no resolver under either name the construction does not
  succeed.
\<close>

theorem createValidationError_without_resolver:
  "lookup no_resolver_env ''resolver:validation-message'' = JUndefined
   \<and> lookup no_resolver_env ''ember-cli-data-validation@resolver:validation-message'' = JUndefined
   \<and> createValidationError no_resolver_env (ex_world fresh_flags [(''age'', ''is too small'')])
       = Inl TypeError"
  by (simp add: createValidationError_def no_resolver_env_def ex_env_def lookupMessageResolver_def
        js_or_def)

text \<open>
  C2 (as amended). When the pass of \<^verbatim>\<open>save()\<close> reports the record invalid, \<^verbatim>\<open>save()\<close> never
  reaches the commit. When a message resolver with a \<^verbatim>\<open>resolveMessage\<close> method is resolved, it
  returns a rejection whose Validation Error carries the record's Error Collection as the
  pass left it; when none is resolved, it raises a TypeError.
\<close>

theorem save_rejects_invalid:
  assumes "validate container m True w = Inr (False, w1)"
  shows "(\<forall>w'. save container m True w \<noteq> Inr (Committed, w'))
       \<and> (\<forall>resolve. lookupMessageResolver container \<noteq> JUndefined
             \<and> lookupMessageResolver container \<noteq> JNull
             \<and> resolveMessage container (lookupMessageResolver container) = Some resolve \<longrightarrow>
             save container m True w =
               Inr (Rejected \<lparr>message = (if ember_isEmpty (heap w1) (resolve ''error'')
                                           then defaultError container else resolve ''error''),
                                verrors = errors w1\<rparr>, w1))
       \<and> (lookupMessageResolver container = JUndefined
            \<or> lookupMessageResolver container = JNull
            \<or> resolveMessage container (lookupMessageResolver container) = None \<longrightarrow>
            save container m True w = Inl TypeError)"
proof (intro conjI allI impI)
  fix w'
  show "save container m True w \<noteq> Inr (Committed, w')"
    using assms by (simp add: save_def split: sum.splits)
next
  fix resolve
  assume "lookupMessageResolver container \<noteq> JUndefined
             \<and> lookupMessageResolver container \<noteq> JNull
             \<and> resolveMessage container (lookupMessageResolver container) = Some resolve"
  then show "save container m True w =
               Inr (Rejected \<lparr>message = (if ember_isEmpty (heap w1) (resolve ''error'')
                                           then defaultError container else resolve ''error''),
                                verrors = errors w1\<rparr>, w1)"
    using assms by (simp add: save_def createValidationError_def Let_def)
next
  assume "lookupMessageResolver container = JUndefined
            \<or> lookupMessageResolver container = JNull
            \<or> resolveMessage container (lookupMessageResolver container) = None"
  then show "save container m True w = Inl TypeError"
    using assms by (auto simp: save_def createValidationError_def Let_def)
qed

theorem save_rejects_invalid_witness:
  "map_sum id (\<lambda>(ok, w1). (ok, errors w1))
     (validate ex_env (ex_model (JNum (-5))) True (ex_world fresh_flags []))
     = Inr (False, [(''age'', ''is too small'')])
   \<and> map_sum id fst (save ex_env (ex_model (JNum (-5))) True (ex_world fresh_flags []))
     = Inr (Rejected \<lparr>message = JStr ''Validation failed'',
                      verrors = [(''age'', ''is too small'')]\<rparr>)
   \<and> save no_resolver_env (ex_model (JNum (-5))) True (ex_world fresh_flags [])
     \<noteq> Inr (Committed, ex_world fresh_flags [])"
proof -
  obtain w1 where v: "validate ex_env (ex_model (JNum (-5))) True (ex_world fresh_flags [])
                        = Inr (False, w1)"
    and e: "errors w1 = [(''age'', ''is too small'')]"
    by (simp add: ex_eval)
  obtain w2 where v2: "validate no_resolver_env (ex_model (JNum (-5))) True
                         (ex_world fresh_flags []) = Inr (False, w2)"
    by (simp add: no_resolver_env_def ex_eval)
  have r: "lookupMessageResolver ex_env = JRef 6"
    by (simp add: ex_env_def lookupMessageResolver_def js_or_def)
  have m: "resolveMessage ex_env (lookupMessageResolver ex_env) = Some (\<lambda>k. JUndefined)"
    by (simp add: r) (simp add: ex_env_def)
  have d: "defaultError ex_env = JStr ''Validation failed''"
    by (simp add: ex_env_def)
  show ?thesis
    using save_rejects_invalid [OF v] save_rejects_invalid [OF v2] r m v e d by simp
qed

text \<open>
  C2 as stated fails: when no message resolver is registered, \<^verbatim>\<open>save()\<close> on a record
  that fails validation raises a TypeError and returns no rejection.
\<close>

theorem save_without_resolver_raises:
  "map_sum id fst (validate no_resolver_env (ex_model (JNum (-5))) True (ex_world fresh_flags []))
     = Inr False
   \<and> save no_resolver_env (ex_model (JNum (-5))) True (ex_world fresh_flags []) = Inl TypeError"
  by (simp add: save_def createValidationError_def no_resolver_env_def ex_eval)

section \<open>Unresolved validator factories\<close>

lemma lookup_all_member_fails:
  "d \<in> set ds \<Longrightarrow> \<forall>w. \<exists>e. lookupValidator container d w = Inl e \<Longrightarrow>
   \<exists>e. lookup_all container ds w = Inl e"
proof (induction ds arbitrary: w)
  case Nil
  then show ?case by simp
next
  case (Cons x xs)
  show ?case
  proof (cases "lookupValidator container x w")
    case (Inl e)
    then show ?thesis by simp
  next
    case (Inr p)
    obtain v w' where p: "p = (v, w')" by (cases p)
    have "x \<noteq> d" using Inr Cons.prems(2) by (metis sum.distinct(1))
    then have "d \<in> set xs" using Cons.prems(1) by simp
    then obtain e where "lookup_all container xs w' = Inl e"
      using Cons.IH Cons.prems(2) by blast
    then show ?thesis using Inr p by simp
  qed
qed

lemma unresolved_factory_not_function:
  assumes "\<not> truthy (lookupFactory container (''validator:'' @ k))"
    and "\<not> truthy (lookupFactory container (''ember-cli-data-validation@validator:'' @ k))"
  shows "lookupValidtorFactory container k \<noteq> JFun c"
  using assms by (auto simp: lookupValidtorFactory_def js_or_def)

text \<open>
  C3. A rule whose type key resolves to nothing under \<^verbatim>\<open>validator:<key>\<close> and under
  \<^verbatim>\<open>ember-cli-data-validation@validator:<key>\<close> makes \<^verbatim>\<open>lookupValidator\<close> fail its
  assertion, with a message that quotes the key; a list of descriptors that holds such a
  rule never yields validators, and neither does \<^verbatim>\<open>validatorsFor\<close> on an attribute that
  declares it.
\<close>

theorem unresolved_validator_halts:
  assumes "\<not> truthy (lookupFactory container (''validator:'' @ dtype d))"
    and "\<not> truthy (lookupFactory container (''ember-cli-data-validation@validator:'' @ dtype d))"
  shows "lookupValidator container d w =
           Inl (AssertionFailed (''Could not find Validator `'' @ dtype d @ ''`.''))
       \<and> (\<forall>ds w'. d \<in> set ds \<longrightarrow> (\<exists>e. lookup_all container ds w' = Inl e))
       \<and> (\<forall>a w' ds. ruleDescriptors (heap w') a = Inr ds \<and> d \<in> set ds \<longrightarrow>
            (\<exists>e. validatorsFor container a w' = Inl e))"
proof -
  have nf: "\<And>c. lookupValidtorFactory container (dtype d) \<noteq> JFun c"
    using assms by (rule unresolved_factory_not_function)
  have one: "\<And>w. lookupValidator container d w =
           Inl (AssertionFailed (''Could not find Validator `'' @ dtype d @ ''`.''))"
    using nf by (simp add: lookupValidator_def assert_message_def Let_def split: jsval.splits)
  have many: "\<And>ds w'. d \<in> set ds \<Longrightarrow> \<exists>e. lookup_all container ds w' = Inl e"
    by (rule lookup_all_member_fails) (auto simp: one)
  have "\<And>a w' ds. ruleDescriptors (heap w') a = Inr ds \<Longrightarrow> d \<in> set ds \<Longrightarrow>
            \<exists>e. validatorsFor container a w' = Inl e"
    using many by (simp add: validatorsFor_def)
  then show ?thesis using one many by blast
qed

theorem unresolved_validator_halts_witness:
  "lookupValidator ex_env unknown_rule (ex_world fresh_flags [])
     = Inl (AssertionFailed ''Could not find Validator `unknown`.'')
   \<and> isl (lookup_all ex_env [unknown_rule] (ex_world fresh_flags []))"
proof -
  have a: "\<not> truthy (lookupFactory ex_env (''validator:'' @ dtype unknown_rule))"
    by (simp add: ex_env_def unknown_rule_def)
  have b: "\<not> truthy (lookupFactory ex_env
                (''ember-cli-data-validation@validator:'' @ dtype unknown_rule))"
    by (simp add: ex_env_def unknown_rule_def)
  have "lookupValidator ex_env unknown_rule (ex_world fresh_flags [])
          = Inl (AssertionFailed (''Could not find Validator `'' @ dtype unknown_rule @ ''`.''))"
    and "\<exists>e. lookup_all ex_env [unknown_rule] (ex_world fresh_flags []) = Inl e"
    using unresolved_validator_halts [OF a b, of "ex_world fresh_flags []"] by simp_all
  then show ?thesis by (auto simp: unknown_rule_def)
qed

section \<open>Recording a validator's result\<close>

text \<open>
  C7. Running one validator on a field adds the entry (field name, result) to the Error
  Collection when the result is a string and changes nothing at all when it is anything
  else; so the Error Collection changes if and only if the result is a string.
\<close>

theorem only_string_results_are_recorded:
  "(let result = run_validator container (vclass v) (typeKeys w (vclass v)) (vprops v)
                   name (field_value m name);
        w' = run_all container m name [v] w
    in (\<forall>s. result = JStr s \<longrightarrow> errors w' = errors w @ [(name, s)])
     \<and> (js_typeof result \<noteq> ''string'' \<longrightarrow> w' = w)
     \<and> (errors w' \<noteq> errors w \<longleftrightarrow> js_typeof result = ''string''))"
  by (cases "run_validator container (vclass v) (typeKeys w (vclass v)) (vprops v)
               name (field_value m name)") (simp_all add: Let_def)

theorem only_string_results_are_recorded_witness:
  "errors (run_all ex_env (ex_model (JStr ''abc'')) ''age'' [numeric_instance]
             (ex_world fresh_flags []))
     = [(''age'', ''must be a number'')]
   \<and> run_all ex_env (ex_model (JNum 3)) ''age'' [numeric_instance] (ex_world fresh_flags [])
     = ex_world fresh_flags []"
  using only_string_results_are_recorded [of ex_env numeric_instance "ex_world fresh_flags []"
          "''age''" "ex_model (JStr ''abc'')"]
    only_string_results_are_recorded [of ex_env numeric_instance "ex_world fresh_flags []"
          "''age''" "ex_model (JNum 3)"]
  by (simp add: ex_env_def ex_model_def ex_world_def numeric_instance_def Let_def)

section \<open>Rule descriptors\<close>





section \<open>Running all the rules of a field\<close>

lemma lookupValidator_errors:
  "lookupValidator container d w = Inr (v, w') \<Longrightarrow> errors w' = errors w \<and> status w' = status w"
  by (auto simp: lookupValidator_def Let_def split: jsval.splits if_splits)

lemma lookup_all_errors:
  "lookup_all container ds w = Inr (vs, w') \<Longrightarrow>
   errors w' = errors w \<and> status w' = status w \<and> length vs = length ds"
proof (induction ds arbitrary: w vs)
  case Nil
  then show ?case by auto
next
  case (Cons d ds)
  then show ?case
    by (auto split: sum.splits prod.splits dest!: lookupValidator_errors)
qed

lemma addError_frame:
  "typeKeys (addError name r w) = typeKeys w \<and> heap (addError name r w) = heap w
   \<and> nxt (addError name r w) = nxt w \<and> status (addError name r w) = status w"
  by (cases r) simp_all

lemma addError_errors:
  "errors (addError name r w) = errors w @ map (Pair name) (failure_messages [r])"
  by (cases r) simp_all

lemma failure_messages_append:
  "failure_messages (xs @ ys) = failure_messages xs @ failure_messages ys"
  by (induction xs rule: failure_messages.induct) simp_all

lemma failure_messages_Cons:
  "failure_messages (r # rs) = failure_messages [r] @ failure_messages rs"
  using failure_messages_append [of "[r]" rs] by simp

lemma run_all_frame:
  "typeKeys (run_all container m name vs w) = typeKeys w
   \<and> heap (run_all container m name vs w) = heap w
   \<and> nxt (run_all container m name vs w) = nxt w
   \<and> status (run_all container m name vs w) = status w"
  by (induction vs arbitrary: w) (simp_all add: Let_def addError_frame)

lemma run_all_errors:
  "errors (run_all container m name vs w) =
     errors w @ map (Pair name) (failure_messages
       (map (\<lambda>v. run_validator container (vclass v) (typeKeys w (vclass v)) (vprops v)
                   name (field_value m name)) vs))"
proof (induction vs arbitrary: w)
  case Nil
  then show ?case by simp
next
  case (Cons v vs)
  show ?case
    apply (simp only: run_all.simps Let_def Cons.IH addError_frame addError_errors list.map)
    apply (subst (2) failure_messages_Cons)
    apply simp
    done
qed

lemma failure_messages_length:
  "length (failure_messages rs) = length (filter (\<lambda>r. js_typeof r = ''string'') rs)"
  by (induction rs rule: failure_messages.induct) simp_all

text \<open>
  C8. When the validators of a field can be built, validating the field runs every one of
  them, one per declared rule, whatever the earlier ones returned, and appends to the Error
  Collection one entry under the field's name for each result that is a string, in rule
  order: a field that fails k rules gains k messages.
\<close>

theorem every_rule_is_evaluated:
  assumes "validatorsFor container (faddr f) w = Inr (vs, w1)"
  shows "(let results = map (\<lambda>v. run_validator container (vclass v) (typeKeys w1 (vclass v))
                                  (vprops v) (fname f) (field_value m (fname f))) vs
          in map_sum id errors (validateAttribute container m f w)
               = Inr (errors w @ map (Pair (fname f)) (failure_messages results))
           \<and> length (failure_messages results)
               = length (filter (\<lambda>r. js_typeof r = ''string'') results)
           \<and> map_sum id length (ruleDescriptors (heap w) (faddr f)) = Inr (length results))"
proof -
  obtain ds where ds: "ruleDescriptors (heap w) (faddr f) = Inr ds"
    and la: "lookup_all container ds w = Inr (vs, w1)"
    using assms by (auto simp: validatorsFor_def split: sum.splits)
  have e: "errors w1 = errors w" and l: "length vs = length ds"
    using lookup_all_errors [OF la] by simp_all
  show ?thesis
    using assms ds e l
    by (simp add: validateAttribute_def Let_def run_all_errors failure_messages_length)
qed

theorem every_rule_is_evaluated_witness:
  "map_sum id errors
     (validateAttribute ex_env (ex_model (JStr ''abc'')) age_field (ex_world fresh_flags []))
     = Inr [(''age'', ''must be a number''), (''age'', ''is out of range'')]"
proof -
  obtain vs w1 where v: "validatorsFor ex_env (faddr age_field) (ex_world fresh_flags [])
                           = Inr (vs, w1)"
    and vs: "map vclass vs = [0, 1]"
    by (simp add: ex_eval age_field_def)
  obtain a b where ab: "vs = [a, b]" "vclass a = 0" "vclass b = 1"
    using vs by auto
  show ?thesis
    using every_rule_is_evaluated [OF v, of "ex_model (JStr ''abc'')"] ab
    by (simp add: Let_def ex_env_def ex_model_def ex_world_def age_field_def)
qed

lemma map_of_set_entry:
  "map_of (set_entry k v ps) k' = (if k' = k then Some v else map_of ps k')"
  by (induction ps) auto

lemma set_entry_present: "map_of ps k = Some v \<Longrightarrow> set_entry k v ps = ps"
  by (induction ps) (auto split: if_splits)

lemma set_entry_keys:
  "map fst (set_entry k v ps) = (if k \<in> set (map fst ps) then map fst ps else map fst ps @ [k])"
proof (induction ps)
  case Nil
  then show ?case by simp
next
  case (Cons p ps)
  obtain k' v' where p: "p = (k', v')" by (cases p)
  show ?case using Cons by (cases "k = k'") (simp_all add: p)
qed

lemma dec_str_digits: "set (dec_str n) \<subseteq> set ''0123456789''"
proof (induction n rule: dec_str.induct)
  case (1 n)
  have d: "\<And>k. k < 10 \<Longrightarrow> digit_char k \<in> set ''0123456789''"
    unfolding digit_char_def by (rule nth_mem) simp
  show ?case
  proof (cases "n < 10")
    case True
    then show ?thesis using d [of n] by (subst dec_str.simps) simp
  next
    case False
    then show ?thesis using 1 d [of "n mod 10"] by (subst dec_str.simps) simp
  qed
qed

lemma dec_str_not_config_key:
  "dec_str n \<noteq> ''attribute''" "dec_str n \<noteq> ''messageResolver''"
  using dec_str_digits [of n] by auto

lemma map_of_index_entries_config_key:
  "map_of (index_entries es) ''attribute'' = None"
  "map_of (index_entries es) ''messageResolver'' = None"
  by (auto simp: index_entries_def map_of_eq_None_iff image_iff dec_str_not_config_key
        dec_str_not_config_key [symmetric])

lemma map_of_merge_config:
  "map_of (own_entries (merge_config a r obj)) ''attribute'' = Some (JRef a)"
  "map_of (own_entries (merge_config a r obj)) ''messageResolver'' = Some r"
  by (cases obj; simp add: merge_config_def map_of_set_entry map_add_def
        map_of_index_entries_config_key)+

lemma merge_config_idem:
  "merge_config a r (merge_config a r obj) = merge_config a r obj"
  by (cases obj) (simp_all add: merge_config_def set_entry_present map_of_set_entry)

lemma obj_get_merge_config:
  "obj_get ''attribute'' (merge_config a r obj) = JRef a
   \<and> obj_get ''messageResolver'' (merge_config a r obj) = r"
  by (cases obj) (simp_all add: merge_config_def map_of_set_entry)

lemma js_typeof_object: "js_typeof v = ''object'' \<longleftrightarrow> v = JNull \<or> (\<exists>a. v = JRef a)"
  by (cases v) simp_all

lemma js_typeof_function: "js_typeof v = ''function'' \<longleftrightarrow> (\<exists>c. v = JFun c)"
  by (cases v) simp_all

lemma lookupValidator_scalar:
  assumes "lookupValidtorFactory container (dtype d) = JFun c"
    and "js_typeof (dvalue d) \<noteq> ''object''"
  shows "lookupValidator container d w =
     Inr (\<lparr>vclass = c, vconfig = nxt w,
           vprops = own_entries (merge_config (dattribute d) (lookupMessageResolver container)
                      (PlainObj [(dtype d, dvalue d)]))\<rparr>,
          w\<lparr>heap := (heap w)(nxt w := merge_config (dattribute d) (lookupMessageResolver container)
                      (PlainObj [(dtype d, dvalue d)])),
            nxt := Suc (nxt w),
            typeKeys := (typeKeys w)(c \<mapsto> camelize container (dtype d))\<rparr>)"
  using assms by (simp add: lookupValidator_def Let_def)

lemma lookupValidator_object:
  assumes "lookupValidtorFactory container (dtype d) = JFun c"
    and "dvalue d = JRef a"
  shows "lookupValidator container d w =
     Inr (\<lparr>vclass = c, vconfig = a,
           vprops = own_entries (merge_config (dattribute d) (lookupMessageResolver container)
                      (heap w a))\<rparr>,
          w\<lparr>heap := (heap w)(a := merge_config (dattribute d) (lookupMessageResolver container)
                      (heap w a)),
            typeKeys := (typeKeys w)(c \<mapsto> camelize container (dtype d))\<rparr>)"
  using assms by (simp add: lookupValidator_def Let_def)

lemma lookupValidator_null:
  assumes "lookupValidtorFactory container (dtype d) = JFun c"
    and "dvalue d = JNull"
  shows "lookupValidator container d w = Inl TypeError"
  using assms by (simp add: lookupValidator_def Let_def)

section \<open>Normalizing the rule value\<close>

text \<open>
  C6 (as amended). For a rule whose validator class is resolved and whose value is not
  null, the validator is created from the normalized configuration: the rule value itself
  when it is an object, otherwise the new object \<^verbatim>\<open>{[ruleType]: ruleValue}\<close>; in both cases
  \<^verbatim>\<open>attribute\<close> and \<^verbatim>\<open>messageResolver\<close> are merged in, and normalizing again the configuration
  object so obtained changes nothing. The shorthand value gives the validator the same
  properties as the explicit object \<^verbatim>\<open>{[ruleType]: ruleValue}\<close> does; an explicit object with
  other keys keeps its own keys.
\<close>

theorem configuration_is_normalized:
  assumes "lookupValidtorFactory container (dtype d) = JFun c"
    and "dvalue d \<noteq> JNull"
  shows "\<exists>v w'. lookupValidator container d w = Inr (v, w')
           \<and> vprops v = normalized_config (heap w) d (lookupMessageResolver container)
           \<and> map_of (vprops v) ''attribute'' = Some (JRef (dattribute d))
           \<and> map_of (vprops v) ''messageResolver'' = Some (lookupMessageResolver container)
           \<and> (js_typeof (dvalue d) \<noteq> ''object'' \<longrightarrow>
                heap w' (vconfig v) = merge_config (dattribute d) (lookupMessageResolver container)
                                        (PlainObj [(dtype d, dvalue d)]))
           \<and> (\<forall>a. dvalue d = JRef a \<longrightarrow> vconfig v = a)
           \<and> lookupValidator container (d\<lparr>dvalue := JRef (vconfig v)\<rparr>) w' = Inr (v, w')
           \<and> (\<forall>b. js_typeof (dvalue d) \<noteq> ''object'' \<and> heap w b = PlainObj [(dtype d, dvalue d)] \<longrightarrow>
                map_sum id (vprops \<circ> fst) (lookupValidator container (d\<lparr>dvalue := JRef b\<rparr>) w)
                  = Inr (vprops v))"
proof (cases "\<exists>a. dvalue d = JRef a")
  case True
  then obtain a where a: "dvalue d = JRef a" by blast
  let ?M = "lookupMessageResolver container"
  let ?o = "merge_config (dattribute d) ?M (heap w a)"
  let ?v = "\<lparr>vclass = c, vconfig = a, vprops = own_entries ?o\<rparr>"
  let ?w = "w\<lparr>heap := (heap w)(a := ?o),
              typeKeys := (typeKeys w)(c \<mapsto> camelize container (dtype d))\<rparr>"
  have r: "lookupValidator container d w = Inr (?v, ?w)"
    using lookupValidator_object [OF assms(1) a] .
  have again: "lookupValidator container (d\<lparr>dvalue := JRef a\<rparr>) ?w = Inr (?v, ?w)"
    using assms(1)
    by (subst lookupValidator_object [where c = c and a = a])
       (simp_all add: merge_config_idem)
  have at: "map_of (own_entries ?o) ''attribute'' = Some (JRef (dattribute d))"
    and mr: "map_of (own_entries ?o) ''messageResolver'' = Some ?M"
    by (simp_all add: map_of_merge_config)
  show ?thesis
    using r again at mr a by (simp add: normalized_config_def)
next
  case False
  then have t: "js_typeof (dvalue d) \<noteq> ''object''"
    using assms(2) by (simp add: js_typeof_object)
  let ?M = "lookupMessageResolver container"
  let ?o = "merge_config (dattribute d) ?M (PlainObj [(dtype d, dvalue d)])"
  let ?v = "\<lparr>vclass = c, vconfig = nxt w, vprops = own_entries ?o\<rparr>"
  let ?w = "w\<lparr>heap := (heap w)(nxt w := ?o), nxt := Suc (nxt w),
              typeKeys := (typeKeys w)(c \<mapsto> camelize container (dtype d))\<rparr>"
  have r: "lookupValidator container d w = Inr (?v, ?w)"
    using lookupValidator_scalar [OF assms(1) t] .
  have again: "lookupValidator container (d\<lparr>dvalue := JRef (nxt w)\<rparr>) ?w = Inr (?v, ?w)"
    using assms(1)
    by (subst lookupValidator_object [where c = c and a = "nxt w"])
       (simp_all add: merge_config_idem)
  have at: "map_of (own_entries ?o) ''attribute'' = Some (JRef (dattribute d))"
    and mr: "map_of (own_entries ?o) ''messageResolver'' = Some ?M"
    by (simp_all add: merge_config_def map_of_set_entry)
  have eq: "\<And>b. heap w b = PlainObj [(dtype d, dvalue d)] \<Longrightarrow>
      map_sum id (vprops \<circ> fst) (lookupValidator container (d\<lparr>dvalue := JRef b\<rparr>) w)
        = Inr (own_entries ?o)"
  proof -
    fix b assume b: "heap w b = PlainObj [(dtype d, dvalue d)]"
    show "map_sum id (vprops \<circ> fst) (lookupValidator container (d\<lparr>dvalue := JRef b\<rparr>) w)
            = Inr (own_entries ?o)"
      using assms(1) by (subst lookupValidator_object [where c = c and a = b]) (simp_all add: b)
  qed
  show ?thesis
    using r again at mr t False eq
    by (cases "dvalue d") (simp_all add: normalized_config_def)
qed

theorem configuration_is_normalized_witness:
  "map_sum id (vprops \<circ> fst) (lookupValidator ex_env numeric_rule (ex_world fresh_flags []))
     = Inr [(''numeric'', JBool True), (''attribute'', JRef 0), (''messageResolver'', JRef 6)]
   \<and> map_sum id (vprops \<circ> fst) (lookupValidator ex_env range_rule (ex_world fresh_flags []))
     = Inr [(''min'', JNum 0), (''attribute'', JRef 0), (''messageResolver'', JRef 6)]"
proof -
  have a: "lookupValidtorFactory ex_env (dtype numeric_rule) = JFun 0"
    and b: "lookupValidtorFactory ex_env (dtype range_rule) = JFun 1"
    by (simp_all add: lookupValidtorFactory_def js_or_def ex_env_def numeric_rule_def
          range_rule_def)
  have n: "dvalue numeric_rule \<noteq> JNull" "dvalue range_rule \<noteq> JNull"
    by (simp_all add: numeric_rule_def range_rule_def)
  show ?thesis
    using configuration_is_normalized [OF a n(1), of "ex_world fresh_flags []"]
      configuration_is_normalized [OF b n(2), of "ex_world fresh_flags []"]
    by (auto simp: normalized_config_def merge_config_def lookupMessageResolver_def js_or_def
          ex_env_def ex_world_def ex_heap_def heap_of_def numeric_rule_def range_rule_def)
qed

text \<open>
  C6 as stated fails: the shorthand declaration \<^verbatim>\<open>{minLength: 5}\<close> and the explicit
  declaration \<^verbatim>\<open>{minLength: {min: 5}}\<close> give the validator different configurations, one
  with the key \<^verbatim>\<open>minLength\<close> and one with the key \<^verbatim>\<open>min\<close>.
\<close>

theorem shorthand_and_explicit_differ:
  "map_sum id (vprops \<circ> fst) (lookupValidator minLength_env minLength_shorthand minLength_world)
     = Inr [(''minLength'', JNum 5), (''attribute'', JRef 0), (''messageResolver'', JRef 6)]
   \<and> map_sum id (vprops \<circ> fst) (lookupValidator minLength_env minLength_explicit minLength_world)
     = Inr [(''min'', JNum 5), (''attribute'', JRef 0), (''messageResolver'', JRef 6)]
   \<and> map_sum id (vprops \<circ> fst) (lookupValidator minLength_env minLength_shorthand minLength_world)
     \<noteq> map_sum id (vprops \<circ> fst)
          (lookupValidator minLength_env minLength_explicit minLength_world)"
  by (simp add: lookupValidator_def lookupValidtorFactory_def lookupMessageResolver_def
        js_or_def merge_config_def minLength_env_def ex_env_def minLength_world_def
        minLength_shorthand_def minLength_explicit_def heap_of_def Let_def)

text \<open>
  The rule value null is left out above: \<^verbatim>\<open>typeof null\<close> is \<^verbatim>\<open>'object'\<close>, so line 53 does not
  wrap it, and the merge of line 59 raises a TypeError.
\<close>

theorem null_rule_value_raises:
  "js_typeof (dvalue null_rule) = ''object''
   \<and> lookupValidtorFactory ex_env (dtype null_rule) = JFun 0
   \<and> lookupValidator ex_env null_rule (ex_world fresh_flags []) = Inl TypeError"
  by (simp add: lookupValidator_def lookupValidtorFactory_def js_or_def ex_env_def
        null_rule_def Let_def)

section \<open>In-place mutation of the declared metadata\<close>

lemma has_key_obj_set: "has_key k' (obj_set k v obj) = (k' = k \<or> has_key k' obj)"
  by (cases obj) (auto simp: has_key_def set_entry_keys)

lemma has_key_merge_config:
  "has_key k (merge_config a r obj) = (k = ''attribute'' \<or> k = ''messageResolver'' \<or> has_key k obj)"
  by (auto simp: merge_config_def has_key_obj_set)

lemma keeps_keys_refl: "keeps_keys w w"
  by (simp add: keeps_keys_def)

lemma keeps_keys_trans: "keeps_keys w w' \<Longrightarrow> keeps_keys w' w'' \<Longrightarrow> keeps_keys w w''"
  by (fastforce simp: keeps_keys_def)

lemma lookupValidator_keeps:
  assumes "lookupValidator container d w = Inr (v, w')"
  shows "keeps_keys w w'"
proof -
  obtain c where c: "lookupValidtorFactory container (dtype d) = JFun c"
    using assms by (auto simp: lookupValidator_def Let_def split: jsval.splits)
  show ?thesis
  proof (cases "js_typeof (dvalue d) = ''object''")
    case False
    then show ?thesis
      using assms lookupValidator_scalar [OF c False, of w]
      by (auto simp: keeps_keys_def)
  next
    case True
    then consider "dvalue d = JNull" | a where "dvalue d = JRef a"
      by (auto simp: js_typeof_object)
    then show ?thesis
    proof cases
      case 1
      then show ?thesis using assms lookupValidator_null [OF c 1, of w] by simp
    next
      case 2
      then show ?thesis
        using assms lookupValidator_object [OF c 2, of w]
        by (auto simp: keeps_keys_def has_key_merge_config)
    qed
  qed
qed

lemma lookup_all_keeps:
  "lookup_all container ds w = Inr (vs, w') \<Longrightarrow> keeps_keys w w'"
proof (induction ds arbitrary: w vs)
  case Nil
  then show ?case by (auto simp: keeps_keys_refl)
next
  case (Cons d ds)
  then show ?case
    by (auto split: sum.splits prod.splits
          intro: keeps_keys_trans [OF lookupValidator_keeps])
qed

lemma validateAttribute_keeps:
  assumes "validateAttribute container m f w = Inr w'"
  shows "keeps_keys w w'"
proof -
  obtain vs w1 where v: "validatorsFor container (faddr f) w = Inr (vs, w1)"
    using assms by (auto simp: validateAttribute_def split: sum.splits)
  then have k: "keeps_keys w w1"
    by (auto simp: validatorsFor_def split: sum.splits dest: lookup_all_keeps)
  have "keeps_keys w1 w'"
    using assms v
    by (auto simp: validateAttribute_def Let_def keeps_keys_def run_all_frame has_key_obj_set)
  then show ?thesis using k by (rule keeps_keys_trans [rotated])
qed

lemma lookup_raised_keeps: "keeps_keys w (lookup_raised container ds w)"
proof (induction ds arbitrary: w)
  case Nil
  then show ?case by (simp add: keeps_keys_refl)
next
  case (Cons d ds)
  show ?case
  proof (cases "lookupValidator container d w")
    case (Inl e)
    then show ?thesis by (simp add: keeps_keys_refl)
  next
    case (Inr p)
    obtain v w1 where p: "p = (v, w1)" by (cases p)
    have "keeps_keys w w1" using Inr p by (auto dest: lookupValidator_keeps)
    then show ?thesis
      using Inr p Cons.IH [of w1] by (auto intro: keeps_keys_trans)
  qed
qed

lemma raised_in_keeps: "keeps_keys w (raised_in container f w)"
  by (simp add: raised_in_def keeps_keys_refl lookup_raised_keeps split: sum.splits)

lemma validate_fields_keeps:
  "validate_fields container m fs w = Inr w' \<Longrightarrow> keeps_keys w w'"
proof (induction fs arbitrary: w)
  case Nil
  then show ?case by (simp add: keeps_keys_refl)
next
  case (Cons f fs)
  show ?case
  proof (cases "validateAttribute container m f w")
    case (Inl e)
    then have "validate_fields container m fs (raised_in container f w) = Inr w'"
      using Cons.prems by (simp split: if_splits)
    then have "keeps_keys (raised_in container f w) w'" by (rule Cons.IH)
    then show ?thesis using raised_in_keeps by (rule keeps_keys_trans [rotated])
  next
    case (Inr w1)
    then have "validate_fields container m fs w1 = Inr w'" using Cons.prems by simp
    then have "keeps_keys w1 w'" by (rule Cons.IH)
    then show ?thesis
      using validateAttribute_keeps [OF Inr] by (rule keeps_keys_trans [rotated])
  qed
qed

lemma validate_keeps:
  assumes "validate container m wc w = Inr (ok, w')"
  shows "keeps_keys w w'"
proof -
  have a: "\<And>(w::'a world) w' e. keeps_keys (w\<lparr>errors := e\<rparr>) w' = keeps_keys w w'"
    "\<And>(w::'a world) w' s. keeps_keys (w\<lparr>status := s\<rparr>) w' = keeps_keys w w'"
    "\<And>(w::'a world) w' e. keeps_keys w (w'\<lparr>errors := e\<rparr>) = keeps_keys w w'"
    "\<And>(w::'a world) w' s. keeps_keys w (w'\<lparr>status := s\<rparr>) = keeps_keys w w'"
    by (simp_all add: keeps_keys_def)
  show ?thesis
    using assms
    by (auto simp: validate_def Let_def a keeps_keys_refl
          split: if_splits sum.splits
          dest!: validate_fields_keeps intro: keeps_keys_trans)
qed

section \<open>Validating twice\<close>

subsection \<open>Property lists under repeated merges\<close>

lemma set_entry_twice: "set_entry k v (set_entry k v' ps) = set_entry k v ps"
  by (induction ps) auto

lemma set_entry_swap_present:
  "map_of ps k \<noteq> None \<Longrightarrow> k \<noteq> k' \<Longrightarrow>
   set_entry k v (set_entry k' v' ps) = set_entry k' v' (set_entry k v ps)"
  by (induction ps) auto

lemma set_entry_has_key: "map_of (set_entry k v ps) k \<noteq> None"
  by (simp add: map_of_set_entry)

lemma set_entry_absorb:
  assumes "k \<noteq> k'"
  shows "set_entry k' w' (set_entry k w (set_entry k' v' (set_entry k v ps)))
         = set_entry k' w' (set_entry k w ps)"
proof -
  have "set_entry k w (set_entry k' v' (set_entry k v ps))
          = set_entry k' v' (set_entry k w (set_entry k v ps))"
    using assms by (intro set_entry_swap_present set_entry_has_key)
  then show ?thesis by (simp add: set_entry_twice)
qed

lemma merge_config_absorb:
  "merge_config f' r' (merge_config f r obj) = merge_config f' r' obj"
  by (cases obj) (simp_all add: merge_config_def set_entry_absorb)

lemma obj_get_obj_set_other: "k \<noteq> k' \<Longrightarrow> obj_get k (obj_set k' v obj) = obj_get k obj"
  by (cases obj) (simp_all add: map_of_set_entry)

subsection \<open>What the descriptors of an attribute depend on\<close>

lemma refs_mem: "a \<in> set (refs vs) \<longleftrightarrow> JRef a \<in> set vs"
  by (induction vs rule: refs.induct) auto

lemma ember_get_cong:
  "(\<And>b. v = JRef b \<Longrightarrow> h b = h' b) \<Longrightarrow> ember_get h v k = ember_get h' v k"
  by (cases v) simp_all

lemma ember_isEmpty_cong:
  "(\<And>b. v = JRef b \<Longrightarrow> h b = h' b) \<Longrightarrow> ember_isEmpty h v = ember_isEmpty h' v"
  by (cases v) simp_all

lemma ember_isArray_cong:
  "(\<And>b. v = JRef b \<Longrightarrow> h b = h' b) \<Longrightarrow> ember_isArray h v = ember_isArray h' v"
  by (cases v) simp_all

lemma object_entries_cong:
  "(\<And>b. v = JRef b \<Longrightarrow> h b = h' b) \<Longrightarrow> object_entries h v = object_entries h' v"
  by (cases v) simp_all

lemma descriptors_of_cong:
  "(\<And>b. JRef b \<in> set es \<Longrightarrow> h b = h' b) \<Longrightarrow> descriptors_of h a es = descriptors_of h' a es"
proof (induction es)
  case Nil
  then show ?case by simp
next
  case (Cons e es)
  have "object_entries h e = object_entries h' e"
    using Cons.prems by (intro object_entries_cong) simp
  moreover have "descriptors_of h a es = descriptors_of h' a es"
    using Cons by simp
  ultimately show ?case by (simp only: descriptors_of.simps)
qed

lemma field_rules_cong:
  assumes "obj_get ''options'' (h a) = obj_get ''options'' (h' a)"
    and "\<And>b. b \<in> set (struct_addrs h' a) \<Longrightarrow> h b = h' b"
  shows "field_rules h a = field_rules h' a \<and> ruleDescriptors h a = ruleDescriptors h' a"
proof -
  let ?o = "obj_get ''options'' (h' a)"
  have o: "\<And>b. ?o = JRef b \<Longrightarrow> h b = h' b"
    using assms(2) by (simp add: struct_addrs_def)
  have g: "ember_get h ?o ''validation'' = ember_get h' ?o ''validation''"
    using o by (rule ember_get_cong)
  show ?thesis
  proof (cases "ember_get h' ?o ''validation''")
    case (Inl e)
    then show ?thesis
      using g assms(1) by (simp add: field_rules_def ruleDescriptors_def)
  next
    case (Inr v)
    have v: "\<And>b. v = JRef b \<Longrightarrow> h b = h' b"
      using assms(2) Inr by (simp add: struct_addrs_def)
    have e: "ember_isEmpty h v = ember_isEmpty h' v"
      by (rule ember_isEmpty_cong) (rule v)
    have r: "ember_isArray h v = ember_isArray h' v"
      by (rule ember_isArray_cong) (rule v)
    have el: "(case v of JRef b \<Rightarrow> array_each (h b) | _ \<Rightarrow> Inl TypeError)
            = (case v of JRef b \<Rightarrow> array_each (h' b) | _ \<Rightarrow> Inl TypeError)"
      using v by (cases v) simp_all
    have fr_alt: "\<And>h. ember_get h (obj_get ''options'' (h a)) ''validation'' = Inr v \<Longrightarrow>
             field_rules h a =
               (if ember_isEmpty h v then []
                else if \<not> ember_isArray h v then [v]
                else (case (case v of JRef b \<Rightarrow> array_each (h b) | _ \<Rightarrow> Inl TypeError) of
                        Inl e \<Rightarrow> [] | Inr es \<Rightarrow> es))"
      by (cases v) (simp_all add: field_rules_def)
    have fr: "field_rules h a = field_rules h' a"
      using g assms(1) Inr e r el by (simp add: fr_alt)
    have d: "descriptors_of h a (field_rules h' a) = descriptors_of h' a (field_rules h' a)"
      using assms(2) by (intro descriptors_of_cong) (simp add: struct_addrs_def refs_mem)
    have "\<And>h. ember_get h (obj_get ''options'' (h a)) ''validation'' = Inr v \<Longrightarrow>
             ruleDescriptors h a =
               (if ember_isEmpty h v then Inr []
                else if \<not> ember_isArray h v then descriptors_of h a (field_rules h a)
                else (case (case v of JRef b \<Rightarrow> array_each (h b) | _ \<Rightarrow> Inl TypeError) of
                        Inl e \<Rightarrow> Inl e
                      | Inr es \<Rightarrow> descriptors_of h a (field_rules h a)))"
      by (cases v) (simp_all add: ruleDescriptors_def field_rules_def split: sum.splits)
    moreover have "descriptors_of h a (field_rules h a) = descriptors_of h' a (field_rules h' a)"
      using fr d by simp
    ultimately have "ruleDescriptors h a = ruleDescriptors h' a"
      using g assms(1) Inr e r el by (simp split: sum.splits)
    then show ?thesis using fr by simp
  qed
qed

lemma normalized_config_agrees:
  assumes "\<And>a. dvalue d = JRef a \<Longrightarrow> merge_config (dattribute d) r (h a)
                                       = merge_config (dattribute d) r (h0 a)"
  shows "normalized_config h d r = normalized_config h0 d r"
proof (cases "dvalue d")
  case (JRef a)
  then show ?thesis using assms [of a] by (simp add: normalized_config_def)
qed (simp_all add: normalized_config_def)

lemma agrees_update:
  assumes agr: "agrees h0 n0 S F V w"
    and h: "heap w' = (heap w)(b := obj)"
    and n: "nxt w \<le> nxt w'"
    and bS: "b \<notin> S"
    and bF: "b \<in> F \<Longrightarrow> obj_get ''options'' obj = obj_get ''options'' (heap w b)"
    and bV: "b \<in> V \<Longrightarrow> (\<And>f r. merge_config f r obj = merge_config f r (heap w b))"
  shows "agrees h0 n0 S F V w'"
  unfolding agrees_def
proof (intro conjI ballI allI)
  show "n0 \<le> nxt w'" using agr n by (simp add: agrees_def)
next
  fix a assume "a \<in> S"
  then show "heap w' a = h0 a" using agr bS h by (auto simp: agrees_def)
next
  fix a assume a: "a \<in> F"
  show "obj_get ''options'' (heap w' a) = obj_get ''options'' (h0 a)"
  proof (cases "a = b")
    case True
    then show ?thesis using agr a bF h by (simp add: agrees_def)
  next
    case False
    then show ?thesis using agr a h by (simp add: agrees_def)
  qed
next
  fix a f r assume a: "a \<in> V"
  show "merge_config f r (heap w' a) = merge_config f r (h0 a)"
  proof (cases "a = b")
    case True
    have "merge_config f r (heap w b) = merge_config f r (h0 b)"
      using agr a True by (simp add: agrees_def)
    then show ?thesis using True a bV [of f r] h by simp
  next
    case False
    then show ?thesis using agr a h by (simp add: agrees_def)
  qed
qed

lemma agrees_frame:
  "heap w' = heap w \<Longrightarrow> nxt w' = nxt w \<Longrightarrow>
   agrees h0 n0 S F V w' = agrees h0 n0 S F V w"
  by (simp add: agrees_def)

lemma layout_fresh:
  assumes lay: "layout n0 S F V"
    and agr: "agrees h0 n0 S F V w"
  shows "nxt w \<notin> S \<and> nxt w \<notin> F \<and> nxt w \<notin> V"
proof -
  have 1: "n0 \<le> nxt w" using agr by (simp add: agrees_def)
  have 2: "\<And>a. a \<in> S \<union> F \<union> V \<Longrightarrow> a < n0" using lay by (simp add: layout_def)
  show ?thesis using 1 2 [of "nxt w"] by auto
qed

lemma agrees_alloc:
  assumes lay: "layout n0 S F V"
    and agr: "agrees h0 n0 S F V w"
    and h: "heap w' = (heap w)(nxt w := obj)"
    and n: "nxt w' = Suc (nxt w)"
  shows "agrees h0 n0 S F V w'"
proof (rule agrees_update [OF agr h])
  note fresh = layout_fresh [OF lay agr]
  show "nxt w \<le> nxt w'" by (simp add: n)
  show "nxt w \<notin> S" using fresh by simp
  show "obj_get ''options'' obj = obj_get ''options'' (heap w (nxt w))" if "nxt w \<in> F"
    using that fresh by simp
  show "merge_config f r obj = merge_config f r (heap w (nxt w))" if "nxt w \<in> V" for f r
    using that fresh by simp
qed

lemma agrees_merge:
  assumes lay: "layout n0 S F V"
    and agr: "agrees h0 n0 S F V w"
    and a: "a \<in> V"
    and h: "heap w' = (heap w)(a := merge_config f0 r0 (heap w a))"
    and n: "nxt w' = nxt w"
  shows "agrees h0 n0 S F V w'"
proof (rule agrees_update [OF agr h])
  have d: "a \<notin> S" "a \<notin> F" using lay a by (auto simp: layout_def)
  show "nxt w \<le> nxt w'" by (simp add: n)
  show "a \<notin> S" by (rule d)
  show "obj_get ''options'' (merge_config f0 r0 (heap w a)) = obj_get ''options'' (heap w a)"
    if "a \<in> F" using that d by simp
  show "merge_config f r (merge_config f0 r0 (heap w a)) = merge_config f r (heap w a)" for f r
    by (rule merge_config_absorb)
qed

lemma agrees_stamp:
  assumes lay: "layout n0 S F V"
    and agr: "agrees h0 n0 S F V w"
    and a: "a \<in> F"
    and h: "heap w' = (heap w)(a := obj_set ''parentTypeKey'' p (heap w a))"
    and n: "nxt w' = nxt w"
  shows "agrees h0 n0 S F V w'"
proof (rule agrees_update [OF agr h])
  have d: "a \<notin> S" "a \<notin> V" using lay a by (auto simp: layout_def)
  show "nxt w \<le> nxt w'" by (simp add: n)
  show "a \<notin> S" by (rule d)
  show "obj_get ''options'' (obj_set ''parentTypeKey'' p (heap w a)) = obj_get ''options'' (heap w a)"
    by (simp add: obj_get_obj_set_other)
  show "merge_config f r (obj_set ''parentTypeKey'' p (heap w a)) = merge_config f r (heap w a)"
    if "a \<in> V" for f r using that d by simp
qed

subsection \<open>One validator\<close>

lemma lookupValidator_ok_iff:
  "(\<exists>r. lookupValidator container d w = Inr r) \<longleftrightarrow> desc_ok container d"
proof
  assume "\<exists>r. lookupValidator container d w = Inr r"
  then show "desc_ok container d"
    by (auto simp: lookupValidator_def desc_ok_def js_typeof_function Let_def
          split: jsval.splits if_splits)
next
  assume "desc_ok container d"
  then obtain c where c: "lookupValidtorFactory container (dtype d) = JFun c"
    and n: "dvalue d \<noteq> JNull"
    by (auto simp: desc_ok_def js_typeof_function)
  show "\<exists>r. lookupValidator container d w = Inr r"
  proof (cases "js_typeof (dvalue d) = ''object''")
    case True
    then obtain a where "dvalue d = JRef a" using n by (auto simp: js_typeof_object)
    then show ?thesis using lookupValidator_object [OF c] by simp
  next
    case False
    then show ?thesis using lookupValidator_scalar [OF c] by simp
  qed
qed

lemma lookupValidator_agrees:
  assumes lay: "layout n0 S F V"
    and agr: "agrees h0 n0 S F V w"
    and val: "\<And>a. dvalue d = JRef a \<Longrightarrow> a \<in> V"
    and run: "lookupValidator container d w = Inr (v, w')"
  shows "agrees h0 n0 S F V w'
       \<and> vclass v = the_class container d
       \<and> vprops v = normalized_config h0 d (lookupMessageResolver container)
       \<and> typeKeys w' = (typeKeys w)(the_class container d \<mapsto> camelize container (dtype d))
       \<and> errors w' = errors w \<and> status w' = status w"
proof -
  have "desc_ok container d"
    using run lookupValidator_ok_iff [of container d w] by auto
  then obtain c where c: "lookupValidtorFactory container (dtype d) = JFun c"
    and n: "dvalue d \<noteq> JNull"
    by (auto simp: desc_ok_def js_typeof_function)
  have tc: "the_class container d = c" by (simp add: the_class_def c)
  let ?M = "lookupMessageResolver container"
  show ?thesis
  proof (cases "js_typeof (dvalue d) = ''object''")
    case False
    let ?o = "merge_config (dattribute d) ?M (PlainObj [(dtype d, dvalue d)])"
    have r: "v = \<lparr>vclass = c, vconfig = nxt w, vprops = own_entries ?o\<rparr>"
      "w' = w\<lparr>heap := (heap w)(nxt w := ?o), nxt := Suc (nxt w),
              typeKeys := (typeKeys w)(c \<mapsto> camelize container (dtype d))\<rparr>"
      using run unfolding lookupValidator_scalar [OF c False, of w]
      by (simp_all only: sum.inject prod.inject)
    have 1: "agrees h0 n0 S F V w'"
      by (rule agrees_alloc [OF lay agr, where obj = ?o]) (simp_all add: r(2))
    have 2: "normalized_config h0 d ?M = own_entries ?o"
      using False by (cases "dvalue d") (simp_all add: normalized_config_def)
    show ?thesis using 1 2 tc by (simp add: r)
  next
    case True
    then obtain a where a: "dvalue d = JRef a" using n by (auto simp: js_typeof_object)
    let ?o = "merge_config (dattribute d) ?M (heap w a)"
    have r: "v = \<lparr>vclass = c, vconfig = a, vprops = own_entries ?o\<rparr>"
      "w' = w\<lparr>heap := (heap w)(a := ?o),
              typeKeys := (typeKeys w)(c \<mapsto> camelize container (dtype d))\<rparr>"
      using run unfolding lookupValidator_object [OF c a, of w]
      by (simp_all only: sum.inject prod.inject)
    have aV: "a \<in> V" using val a by simp
    have eq: "?o = merge_config (dattribute d) ?M (h0 a)"
      using agr aV by (simp add: agrees_def)
    have 1: "agrees h0 n0 S F V w'"
      by (rule agrees_merge [OF lay agr aV, where ?f0.0 = "dattribute d" and ?r0.0 = ?M])
         (simp_all add: r(2))
    have 2: "normalized_config h0 d ?M = own_entries ?o"
      unfolding eq using a by (simp add: normalized_config_def)
    show ?thesis using 1 2 tc by (simp add: r)
  qed
qed

subsection \<open>All validators of an attribute\<close>

lemma lookup_all_ok:
  "list_all (desc_ok container) ds \<Longrightarrow> \<exists>vs w'. lookup_all container ds w = Inr (vs, w')"
proof (induction ds arbitrary: w)
  case Nil
  then show ?case by simp
next
  case (Cons d ds)
  then obtain v w1 where 1: "lookupValidator container d w = Inr (v, w1)"
    using lookupValidator_ok_iff [of container d w] by auto
  obtain vs w2 where "lookup_all container ds w1 = Inr (vs, w2)"
    using Cons by fastforce
  then show ?case using 1 by simp
qed

lemma lookup_all_agrees:
  assumes lay: "layout n0 S F V"
  shows "agrees h0 n0 S F V w \<Longrightarrow> (\<And>d a. d \<in> set ds \<Longrightarrow> dvalue d = JRef a \<Longrightarrow> a \<in> V) \<Longrightarrow>
         lookup_all container ds w = Inr (vs, w') \<Longrightarrow>
         agrees h0 n0 S F V w'
         \<and> list_all2 (\<lambda>v d. vclass v = the_class container d
                \<and> vprops v = normalized_config h0 d (lookupMessageResolver container)) vs ds
         \<and> typeKeys w' = stamp_all container ds (typeKeys w)
         \<and> errors w' = errors w \<and> status w' = status w
         \<and> list_all (desc_ok container) ds"
proof (induction ds arbitrary: w vs)
  case Nil
  then show ?case by auto
next
  case (Cons d ds)
  obtain v w1 where 1: "lookupValidator container d w = Inr (v, w1)"
    using Cons.prems(3) by (auto split: sum.splits)
  obtain vs' where 2: "lookup_all container ds w1 = Inr (vs', w')" and vs: "vs = v # vs'"
    using Cons.prems(3) 1 by (auto split: sum.splits)
  have ok: "desc_ok container d"
    using 1 lookupValidator_ok_iff [of container d w] by auto
  have s1: "agrees h0 n0 S F V w1
       \<and> vclass v = the_class container d
       \<and> vprops v = normalized_config h0 d (lookupMessageResolver container)
       \<and> typeKeys w1 = (typeKeys w)(the_class container d \<mapsto> camelize container (dtype d))
       \<and> errors w1 = errors w \<and> status w1 = status w"
  proof (rule lookupValidator_agrees [OF lay Cons.prems(1) _ 1])
    fix a assume "dvalue d = JRef a"
    then show "a \<in> V" using Cons.prems(2) [of d a] by simp
  qed
  have s2: "agrees h0 n0 S F V w'
         \<and> list_all2 (\<lambda>v d. vclass v = the_class container d
                \<and> vprops v = normalized_config h0 d (lookupMessageResolver container)) vs' ds
         \<and> typeKeys w' = stamp_all container ds (typeKeys w1)
         \<and> errors w' = errors w1 \<and> status w' = status w1
         \<and> list_all (desc_ok container) ds"
  proof (rule Cons.IH [OF _ _ 2])
    show "agrees h0 n0 S F V w1" using s1 by simp
  next
    fix d' a assume "d' \<in> set ds" "dvalue d' = JRef a"
    then show "a \<in> V" using Cons.prems(2) [of d' a] by simp
  qed
  show ?case using s1 s2 vs ok by simp
qed

subsection \<open>The stamped type keys\<close>

lemma stamp_all_other:
  "c \<notin> the_class container ` set ds \<Longrightarrow> stamp_all container ds tk c = tk c"
  by (induction ds arbitrary: tk) simp_all

lemma stamp_all_initial:
  "c \<in> the_class container ` set ds \<Longrightarrow>
   stamp_all container ds tk c = stamp_all container ds tk' c"
proof (induction ds arbitrary: tk tk')
  case Nil
  then show ?case by simp
next
  case (Cons d ds)
  show ?case
  proof (cases "c \<in> the_class container ` set ds")
    case True
    then show ?thesis using Cons.IH by simp
  next
    case False
    then have "c = the_class container d" using Cons.prems by simp
    then show ?thesis using False by (simp add: stamp_all_other)
  qed
qed

lemma results_by_descriptor:
  assumes "list_all2 (\<lambda>v d. vclass v = cls d \<and> vprops v = cfg d) vs ds"
    and "\<And>d. d \<in> set ds \<Longrightarrow> tk (cls d) = tk' (cls d)"
  shows "map (\<lambda>v. run (vclass v) (tk (vclass v)) (vprops v)) vs
       = map (\<lambda>d. run (cls d) (tk' (cls d)) (cfg d)) ds"
  using assms by (induction vs ds rule: list_all2_induct) simp_all

subsection \<open>One field\<close>

lemma ruleDescriptors_agrees:
  assumes agr: "agrees h0 n0 S F V w"
    and cov: "covers h0 S F V f"
  shows "ruleDescriptors (heap w) (faddr f) = ruleDescriptors h0 (faddr f)"
proof -
  have 1: "obj_get ''options'' (heap w (faddr f)) = obj_get ''options'' (h0 (faddr f))"
    using agr cov by (simp add: agrees_def covers_def)
  have 2: "\<And>b. b \<in> set (struct_addrs h0 (faddr f)) \<Longrightarrow> heap w b = h0 b"
    using agr cov by (auto simp: agrees_def covers_def)
  show ?thesis using field_rules_cong [of "heap w" "faddr f" h0, OF 1 2] by simp
qed

lemma validateAttribute_agrees:
  assumes lay: "layout n0 S F V"
    and agr: "agrees h0 n0 S F V w"
    and cov: "covers h0 S F V f"
    and run: "validateAttribute container m f w = Inr w'"
  shows "agrees h0 n0 S F V w'
       \<and> errors w' = errors w @ map (Pair (fname f))
                                   (failure_messages (field_results container m h0 f))
       \<and> status w' = status w
       \<and> field_ok container h0 f"
proof -
  let ?a = "faddr f"
  let ?M = "lookupMessageResolver container"
  obtain ds where ds: "ruleDescriptors (heap w) ?a = Inr ds"
    using run by (auto simp: validateAttribute_def validatorsFor_def split: sum.splits)
  then have ds0: "ruleDescriptors h0 ?a = Inr ds"
    using ruleDescriptors_agrees [OF agr cov] by simp
  obtain vs w1 where la: "lookup_all container ds w = Inr (vs, w1)"
    using run ds by (auto simp: validateAttribute_def validatorsFor_def split: sum.splits)
  let ?w2 = "w1\<lparr>heap := (heap w1)(?a := obj_set ''parentTypeKey'' (modelName m) (heap w1 ?a))\<rparr>"
  have w': "w' = run_all container m (fname f) vs ?w2"
    using run ds la by (simp add: validateAttribute_def validatorsFor_def Let_def)
  have inV: "\<And>d a. d \<in> set ds \<Longrightarrow> dvalue d = JRef a \<Longrightarrow> a \<in> V"
  proof -
    fix d a assume "d \<in> set ds" "dvalue d = JRef a"
    then have "JRef a \<in> set (map dvalue ds)" by force
    then have "a \<in> set (value_addrs h0 ?a)"
      by (simp add: value_addrs_def ds0 refs_mem)
    then show "a \<in> V" using cov by (auto simp: covers_def)
  qed
  have s: "agrees h0 n0 S F V w1
         \<and> list_all2 (\<lambda>v d. vclass v = the_class container d
                \<and> vprops v = normalized_config h0 d ?M) vs ds
         \<and> typeKeys w1 = stamp_all container ds (typeKeys w)
         \<and> errors w1 = errors w \<and> status w1 = status w
         \<and> list_all (desc_ok container) ds"
    by (rule lookup_all_agrees [OF lay agr inV la])
  have aF: "?a \<in> F" using cov by (simp add: covers_def)
  have a2: "agrees h0 n0 S F V ?w2"
    by (rule agrees_stamp [OF lay _ aF, where w = w1 and p = "modelName m"])
       (simp_all add: s)
  have "heap w' = heap ?w2" "nxt w' = nxt ?w2"
    unfolding w' by (simp_all only: run_all_frame)
  then have a3: "agrees h0 n0 S F V w'"
    using a2 agrees_frame [of w' ?w2 h0 n0 S F V] by blast
  have res: "map (\<lambda>v. run_validator container (vclass v)
                   (stamp_all container ds (typeKeys w) (vclass v)) (vprops v)
                   (fname f) (field_value m (fname f))) vs
           = field_results container m h0 f"
    unfolding field_results_def ds0 sum.case
  proof (rule results_by_descriptor [where run = "\<lambda>c t p. run_validator container c t p
                   (fname f) (field_value m (fname f))"])
    show "list_all2 (\<lambda>v d. vclass v = the_class container d
                \<and> vprops v = normalized_config h0 d ?M) vs ds"
      using s by simp
    show "stamp_all container ds (typeKeys w) (the_class container d)
        = stamp_all container ds Map.empty (the_class container d)" if "d \<in> set ds" for d
      using that by (intro stamp_all_initial) simp
  qed
  have e: "errors w' = errors w @ map (Pair (fname f))
                                   (failure_messages (field_results container m h0 f))"
    using s res by (simp add: w' run_all_errors)
  have st: "status w' = status w"
    using s by (simp add: w' run_all_frame)
  have ok: "field_ok container h0 f"
    using s by (simp add: field_ok_def ds0)
  show ?thesis using a3 e st ok by simp
qed

lemma validateAttribute_ok:
  assumes agr: "agrees h0 n0 S F V w"
    and cov: "covers h0 S F V f"
    and ok: "field_ok container h0 f"
  shows "\<exists>w'. validateAttribute container m f w = Inr w'"
proof -
  obtain ds where ds0: "ruleDescriptors h0 (faddr f) = Inr ds"
    and oks: "list_all (desc_ok container) ds"
    using ok by (auto simp: field_ok_def split: sum.splits)
  have ds: "ruleDescriptors (heap w) (faddr f) = Inr ds"
    using ruleDescriptors_agrees [OF agr cov] ds0 by simp
  obtain vs w1 where "lookup_all container ds w = Inr (vs, w1)"
    using lookup_all_ok [OF oks] by blast
  then show ?thesis
    using ds by (simp add: validateAttribute_def validatorsFor_def Let_def)
qed

subsection \<open>A field that raises\<close>

lemma lookup_raised_agrees:
  assumes lay: "layout n0 S F V"
  shows "agrees h0 n0 S F V w \<Longrightarrow> (\<And>d a. d \<in> set ds \<Longrightarrow> dvalue d = JRef a \<Longrightarrow> a \<in> V) \<Longrightarrow>
         agrees h0 n0 S F V (lookup_raised container ds w)
         \<and> errors (lookup_raised container ds w) = errors w
         \<and> status (lookup_raised container ds w) = status w"
proof (induction ds arbitrary: w)
  case Nil
  then show ?case by simp
next
  case (Cons d ds)
  show ?case
  proof (cases "lookupValidator container d w")
    case (Inl e)
    then show ?thesis using Cons.prems(1) by simp
  next
    case (Inr p)
    obtain v w1 where p: "p = (v, w1)" by (cases p)
    have 1: "lookupValidator container d w = Inr (v, w1)" using Inr p by simp
    have s1: "agrees h0 n0 S F V w1
       \<and> vclass v = the_class container d
       \<and> vprops v = normalized_config h0 d (lookupMessageResolver container)
       \<and> typeKeys w1 = (typeKeys w)(the_class container d \<mapsto> camelize container (dtype d))
       \<and> errors w1 = errors w \<and> status w1 = status w"
    proof (rule lookupValidator_agrees [OF lay Cons.prems(1) _ 1])
      fix a assume "dvalue d = JRef a"
      then show "a \<in> V" using Cons.prems(2) [of d a] by simp
    qed
    have s2: "agrees h0 n0 S F V (lookup_raised container ds w1)
         \<and> errors (lookup_raised container ds w1) = errors w1
         \<and> status (lookup_raised container ds w1) = status w1"
    proof (rule Cons.IH)
      show "agrees h0 n0 S F V w1" using s1 by simp
    next
      fix d' a assume "d' \<in> set ds" "dvalue d' = JRef a"
      then show "a \<in> V" using Cons.prems(2) [of d' a] by simp
    qed
    show ?thesis using 1 s1 s2 by simp
  qed
qed

lemma raised_in_agrees:
  assumes lay: "layout n0 S F V"
    and agr: "agrees h0 n0 S F V w"
    and cov: "covers h0 S F V f"
  shows "agrees h0 n0 S F V (raised_in container f w)
       \<and> errors (raised_in container f w) = errors w
       \<and> status (raised_in container f w) = status w"
proof (cases "ruleDescriptors h0 (faddr f)")
  case (Inl e)
  then show ?thesis
    using agr ruleDescriptors_agrees [OF agr cov] by (simp add: raised_in_def)
next
  case (Inr ds)
  have inV: "\<And>d a. d \<in> set ds \<Longrightarrow> dvalue d = JRef a \<Longrightarrow> a \<in> V"
  proof -
    fix d a assume "d \<in> set ds" "dvalue d = JRef a"
    then have "JRef a \<in> set (map dvalue ds)" by force
    then have "a \<in> set (value_addrs h0 (faddr f))"
      by (simp add: value_addrs_def Inr refs_mem)
    then show "a \<in> V" using cov by (auto simp: covers_def)
  qed
  show ?thesis
    using lookup_raised_agrees [OF lay agr inV, where ds = ds and container = container]
      ruleDescriptors_agrees [OF agr cov] Inr
    by (simp add: raised_in_def)
qed

lemma validateAttribute_raises:
  assumes lay: "layout n0 S F V"
    and agr: "agrees h0 n0 S F V w"
    and cov: "covers h0 S F V f"
  shows "(\<exists>e. validateAttribute container m f w = Inl e) \<longleftrightarrow> \<not> field_ok container h0 f"
proof (cases "validateAttribute container m f w")
  case (Inl e)
  have "\<not> field_ok container h0 f"
  proof
    assume "field_ok container h0 f"
    then obtain w' where "validateAttribute container m f w = Inr w'"
      using validateAttribute_ok [OF agr cov] by blast
    then show False using Inl by simp
  qed
  then show ?thesis using Inl by simp
next
  case (Inr w')
  then have "field_ok container h0 f"
    using validateAttribute_agrees [OF lay agr cov Inr] by simp
  then show ?thesis using Inr by simp
qed

subsection \<open>All fields\<close>

lemma validate_fields_agrees:
  assumes lay: "layout n0 S F V"
  shows "agrees h0 n0 S F V w \<Longrightarrow> list_all (covers h0 S F V) fs \<Longrightarrow>
         validate_fields container m fs w = Inr w' \<Longrightarrow>
         agrees h0 n0 S F V w'
         \<and> errors w' = errors w @ pass_messages container m h0 fs
         \<and> status w' = status w
         \<and> (run_rethrows container \<longrightarrow> list_all (field_ok container h0) fs)"
proof (induction fs arbitrary: w)
  case Nil
  then show ?case by (simp add: pass_messages_def)
next
  case (Cons f fs)
  have cf: "covers h0 S F V f" and cfs: "list_all (covers h0 S F V) fs"
    using Cons.prems(2) by simp_all
  show ?case
  proof (cases "validateAttribute container m f w")
    case (Inr w1)
    have 2: "validate_fields container m fs w1 = Inr w'"
      using Cons.prems(3) Inr by simp
    note s1 = validateAttribute_agrees [OF lay Cons.prems(1) cf Inr]
    have a1: "agrees h0 n0 S F V w1" using s1 by simp
    note s2 = Cons.IH [OF a1 cfs 2]
    show ?thesis using s1 s2 by (simp add: pass_messages_def field_messages_def)
  next
    case (Inl e)
    have nok: "\<not> field_ok container h0 f"
      using validateAttribute_raises [OF lay Cons.prems(1) cf, of container m] Inl by auto
    have nr: "\<not> run_rethrows container"
      and 2: "validate_fields container m fs (raised_in container f w) = Inr w'"
      using Cons.prems(3) Inl by (simp_all split: if_splits)
    note s1 = raised_in_agrees [OF lay Cons.prems(1) cf, of container]
    have a1: "agrees h0 n0 S F V (raised_in container f w)" using s1 by simp
    note s2 = Cons.IH [OF a1 cfs 2]
    show ?thesis using s1 s2 nok nr by (simp add: pass_messages_def field_messages_def)
  qed
qed

lemma validate_fields_ok:
  assumes lay: "layout n0 S F V"
  shows "agrees h0 n0 S F V w \<Longrightarrow> list_all (covers h0 S F V) fs \<Longrightarrow>
         (run_rethrows container \<longrightarrow> list_all (field_ok container h0) fs) \<Longrightarrow>
         \<exists>w'. validate_fields container m fs w = Inr w'"
proof (induction fs arbitrary: w)
  case Nil
  then show ?case by simp
next
  case (Cons f fs)
  have cf: "covers h0 S F V f" and cfs: "list_all (covers h0 S F V) fs"
    using Cons.prems(2) by simp_all
  have okfs: "run_rethrows container \<longrightarrow> list_all (field_ok container h0) fs"
    using Cons.prems(3) by simp
  show ?case
  proof (cases "validateAttribute container m f w")
    case (Inr w1)
    have a1: "agrees h0 n0 S F V w1"
      using validateAttribute_agrees [OF lay Cons.prems(1) cf Inr] by simp
    obtain w' where "validate_fields container m fs w1 = Inr w'"
      using Cons.IH [OF a1 cfs okfs] by blast
    then show ?thesis using Inr by simp
  next
    case (Inl e)
    have "\<not> field_ok container h0 f"
      using validateAttribute_raises [OF lay Cons.prems(1) cf, of container m] Inl by auto
    then have nr: "\<not> run_rethrows container" using Cons.prems(3) by auto
    have a1: "agrees h0 n0 S F V (raised_in container f w)"
      using raised_in_agrees [OF lay Cons.prems(1) cf, of container] by simp
    obtain w' where "validate_fields container m fs (raised_in container f w) = Inr w'"
      using Cons.IH [OF a1 cfs okfs] by blast
    then show ?thesis using Inl nr by simp
  qed
qed

lemma validate_fields_append:
  "validate_fields container m (xs @ ys) w =
     (case validate_fields container m xs w of
        Inl e \<Rightarrow> Inl e
      | Inr w' \<Rightarrow> validate_fields container m ys w')"
  by (induction xs arbitrary: w) (simp_all split: sum.splits)

lemma validate_alt:
  "validate container m willCommit w =
     (let w1 = (if \<not> isValid container (status w)
                then w\<lparr>status := send container BecameValid (status w), errors := []\<rparr>
                else w)
      in if isDeleted container (status w1) then Inr (True, w1)
         else
           (let w2 = (if willCommit then w1\<lparr>status := send container WillCommit (status w1)\<rparr>
                      else w1)
            in case validate_fields container m (attributes m @ relationships m) w2 of
                 Inl e \<Rightarrow> Inl e
               | Inr w4 \<Rightarrow>
                   if errors w4 \<noteq> [] then
                     Inr (False, w4\<lparr>status := send container TriggerBecameInvalid
                                      (send container BecomeDirty (status w4))\<rparr>)
                   else Inr (True, w4)))"
  by (simp add: validate_def validate_fields_append Let_def split: sum.splits)

lemma separated_layout:
  assumes "separated h n fl"
  shows "layout n (set (concat (map (struct_addrs h) fl))) (set fl)
           (set (concat (map (value_addrs h) fl)))"
  using assms unfolding separated_def layout_def Let_def by blast

lemma covers_member:
  assumes "faddr f \<in> set fl"
  shows "covers h (set (concat (map (struct_addrs h) fl))) (set fl)
           (set (concat (map (value_addrs h) fl))) f"
  using assms unfolding covers_def by auto

lemma agrees_initial: "agrees (heap w) (nxt w) S F V w"
  by (simp add: agrees_def)

lemma validate_steps:
  "validate container m willCommit w =
     (if isDeleted container (status (reset_invalid container w))
      then Inr (True, reset_invalid container w)
      else (case validate_fields container m (attributes m @ relationships m)
                   (mark_commit container willCommit (reset_invalid container w)) of
              Inl e \<Rightarrow> Inl e
            | Inr w4 \<Rightarrow> Inr (conclude container w4)))"
  by (simp add: validate_alt reset_invalid_def mark_commit_def conclude_def Let_def
        split: sum.splits)

lemma reset_invalid_frame:
  "heap (reset_invalid container w) = heap w" "nxt (reset_invalid container w) = nxt w"
  by (simp_all add: reset_invalid_def)

lemma mark_commit_frame:
  "heap (mark_commit container c w) = heap w" "nxt (mark_commit container c w) = nxt w"
  "errors (mark_commit container c w) = errors w"
  by (simp_all add: mark_commit_def)

lemma conclude_frame:
  "heap (snd (conclude container w)) = heap w" "nxt (snd (conclude container w)) = nxt w"
  "errors (snd (conclude container w)) = errors w"
  "fst (conclude container w) = (errors w = [])"
  by (simp_all add: conclude_def)

lemma deleted_stable:
  assumes del: "\<forall>e s. isDeleted container (send container e s) = isDeleted container s"
  shows "isDeleted container (status (reset_invalid container w)) = isDeleted container (status w)"
    and "isDeleted container (status (mark_commit container c w)) = isDeleted container (status w)"
    and "isDeleted container (status (snd (conclude container w))) = isDeleted container (status w)"
  using del by (simp_all add: reset_invalid_def mark_commit_def conclude_def)

lemma reset_invalid_errors:
  "isValid container (status w) \<longrightarrow> errors w = [] \<Longrightarrow> errors (reset_invalid container w) = []"
  by (simp add: reset_invalid_def)

lemma conclude_consistent:
  assumes "\<forall>s. \<not> isValid container (send container TriggerBecameInvalid s)"
  shows "isValid container (status (snd (conclude container w))) \<longrightarrow>
         errors (snd (conclude container w)) = []"
  using assms by (simp add: conclude_def)

text \<open>
  C9 (as amended). Validators are pure functions of their instance properties, their
  class's type key, the field name and the field value (the type of \<open>run_validator\<close>). For
  a record that holds no errors while it is marked valid, whose declared metadata are laid
  out as separate objects, and whose state machine marks it not valid on \<^verbatim>\<open>becameInvalid\<close>
  and never changes whether it is deleted: a second \<^verbatim>\<open>validate()\<close>, right after a first one
  that returned, returns too, with the same boolean and with the same Error Collection;
  the errors of the first pass are cleared, not accumulated.
\<close>

theorem validate_twice_same_outcome:
  assumes sep: "separated (heap w) (nxt w) (map faddr (attributes m @ relationships m))"
    and cons: "isValid container (status w) \<longrightarrow> errors w = []"
    and inval: "\<forall>s. \<not> isValid container (send container TriggerBecameInvalid s)"
    and del: "\<forall>e s. isDeleted container (send container e s) = isDeleted container s"
    and first: "validate container m willCommit w = Inr (ok, w1)"
  shows "\<exists>w2. validate container m willCommit' w1 = Inr (ok, w2) \<and> errors w2 = errors w1"
proof -
  let ?fs = "attributes m @ relationships m"
  let ?fl = "map faddr ?fs"
  let ?h = "heap w" and ?n = "nxt w"
  define S where "S = set (concat (map (struct_addrs ?h) ?fl))"
  define V where "V = set (concat (map (value_addrs ?h) ?fl))"
  define F where "F = set ?fl"
  have lay: "layout ?n S F V"
    unfolding S_def V_def F_def using sep by (rule separated_layout)
  have cov: "list_all (covers ?h S F V) ?fs"
    unfolding S_def V_def F_def list_all_iff
    by (intro ballI covers_member) auto
  let ?r = "reset_invalid container w"
  have r_err: "errors ?r = []" using cons by (rule reset_invalid_errors)
  have r_del: "isDeleted container (status ?r) = isDeleted container (status w)"
    using del by (rule deleted_stable)
  show ?thesis
  proof (cases "isDeleted container (status w)")
    case True
    have 1: "ok = True \<and> w1 = ?r"
      using first True r_del by (simp add: validate_steps)
    have 2: "isDeleted container (status (reset_invalid container ?r))"
      using True r_del deleted_stable(1) [OF del, of ?r] by simp
    have 3: "errors (reset_invalid container ?r) = errors ?r"
      using r_err by (simp add: reset_invalid_def)
    show ?thesis using 1 2 3 by (simp add: validate_steps)
  next
    case False
    let ?u = "mark_commit container willCommit ?r"
    obtain w4 where f: "validate_fields container m ?fs ?u = Inr w4"
      and res: "(ok, w1) = conclude container w4"
      using first False r_del by (auto simp: validate_steps split: sum.splits)
    have agr_u: "agrees ?h ?n S F V ?u"
      using agrees_frame [of ?u w ?h ?n S F V] agrees_initial [of w S F V]
      by (simp add: mark_commit_frame reset_invalid_frame)
    note p1 = validate_fields_agrees [OF lay agr_u cov f]
    let ?E = "pass_messages container m ?h ?fs"
    have e4: "errors w4 = ?E" using p1 r_err by (simp add: mark_commit_frame)
    have oks: "run_rethrows container \<longrightarrow> list_all (field_ok container ?h) ?fs"
      using p1 by simp
    have w1: "w1 = snd (conclude container w4)" and ok: "ok = (?E = [])"
      using res e4 conclude_frame(4) [of container w4] by (metis snd_conv, metis fst_conv)
    have agr1: "agrees ?h ?n S F V w1"
      using agrees_frame [of w1 w4 ?h ?n S F V] p1 by (simp add: w1 conclude_frame)
    have e1: "errors w1 = ?E" by (simp add: w1 conclude_frame e4)
    have c1: "isValid container (status w1) \<longrightarrow> errors w1 = []"
      unfolding w1 using inval by (rule conclude_consistent)
    have d4: "\<not> isDeleted container (status w4)"
      using p1 False r_del deleted_stable(2) [OF del, of willCommit ?r] by simp
    have d1: "\<not> isDeleted container (status w1)"
      using d4 deleted_stable(3) [OF del, of w4] by (simp add: w1)
    let ?r' = "reset_invalid container w1"
    let ?u' = "mark_commit container willCommit' ?r'"
    have r'_err: "errors ?r' = []" using c1 by (rule reset_invalid_errors)
    have r'_del: "\<not> isDeleted container (status ?r')"
      using d1 deleted_stable(1) [OF del, of w1] by simp
    have agr_u': "agrees ?h ?n S F V ?u'"
      using agrees_frame [of ?u' w1 ?h ?n S F V] agr1
      by (simp add: mark_commit_frame reset_invalid_frame)
    obtain w4' where f': "validate_fields container m ?fs ?u' = Inr w4'"
      using validate_fields_ok [OF lay agr_u' cov oks] by blast
    note p2 = validate_fields_agrees [OF lay agr_u' cov f']
    have e4': "errors w4' = ?E" using p2 r'_err by (simp add: mark_commit_frame)
    have second: "validate container m willCommit' w1 = Inr (conclude container w4')"
      using r'_del f' by (simp add: validate_steps)
    have "fst (conclude container w4') = ok"
      using conclude_frame(4) [of container w4'] e4' ok by simp
    then have "conclude container w4' = (ok, snd (conclude container w4'))"
      by (cases "conclude container w4'") simp
    moreover have "errors (snd (conclude container w4')) = errors w1"
      by (simp add: conclude_frame e4' e1)
    ultimately show ?thesis using second by metis
  qed
qed

theorem validate_twice_same_outcome_witness:
  "map_sum id (\<lambda>(ok, w1). (ok, errors w1,
       map_sum id (\<lambda>(ok2, w2). (ok2, errors w2))
         (validate ex_env (ex_model (JStr ''abc'')) True w1)))
     (validate ex_env (ex_model (JStr ''abc'')) True (ex_world fresh_flags []))
   = Inr (False, [(''age'', ''must be a number''), (''age'', ''is out of range'')],
          Inr (False, [(''age'', ''must be a number''), (''age'', ''is out of range'')]))"
proof -
  let ?m = "ex_model (JStr ''abc'')" and ?w = "ex_world fresh_flags []"
  obtain w1 where first: "validate ex_env ?m True ?w = Inr (False, w1)"
    and e1: "errors w1 = [(''age'', ''must be a number''), (''age'', ''is out of range'')]"
    by (simp add: ex_eval)
  have sep: "separated (heap ?w) (nxt ?w) (map faddr (attributes ?m @ relationships ?m))"
    by (simp add: separated_def struct_addrs_def value_addrs_def field_rules_def
          ruleDescriptors_def ex_model_def ex_world_def ex_heap_def heap_of_def Let_def)
  have cons: "isValid ex_env (status ?w) \<longrightarrow> errors ?w = []"
    by (simp add: ex_world_def)
  have inval: "\<forall>s. \<not> isValid ex_env (send ex_env TriggerBecameInvalid s)"
    by (simp add: ex_env_def)
  have del: "\<forall>e s. isDeleted ex_env (send ex_env e s) = isDeleted ex_env s"
  proof (intro allI)
    fix e s show "isDeleted ex_env (send ex_env e s) = isDeleted ex_env s"
      by (cases e) (simp_all add: ex_env_def)
  qed
  obtain w2 where "validate ex_env ?m True w1 = Inr (False, w2)" "errors w2 = errors w1"
    using validate_twice_same_outcome [OF sep cons inval del first, of True] by blast
  then show ?thesis using first e1 by simp
qed

text \<open>
  C9 as stated fails: a record that is marked valid and holds a stale error, with field
  values every validator accepts, is reported invalid with the stale error by the first
  \<^verbatim>\<open>validate()\<close> and valid with no error by the second.
\<close>

theorem stale_errors_differ:
  "isValid ex_env (status (ex_world fresh_flags [(''age'', ''stale'')]))
   \<and> map_sum id fst
        (validate ex_env (ex_model (JNum 3)) True (ex_world fresh_flags [(''age'', ''stale'')]))
       = Inr False
   \<and> map_sum id (errors \<circ> snd)
        (validate ex_env (ex_model (JNum 3)) True (ex_world fresh_flags [(''age'', ''stale'')]))
       = Inr [(''age'', ''stale'')]
   \<and> map_sum id fst
        (validate ex_env (ex_model (JNum 3)) True
           (after_validate ex_env (ex_model (JNum 3))
              (ex_world fresh_flags [(''age'', ''stale'')])))
       = Inr True
   \<and> map_sum id (errors \<circ> snd)
        (validate ex_env (ex_model (JNum 3)) True
           (after_validate ex_env (ex_model (JNum 3))
              (ex_world fresh_flags [(''age'', ''stale'')])))
       = Inr []"
  by (simp add: after_validate_def ex_eval)

section \<open>The declared metadata after a pass\<close>

lemma lookup_all_merged:
  "lookup_all container ds w = Inr (vs, w') \<Longrightarrow>
   (\<And>d a. d \<in> set ds \<Longrightarrow> dvalue d = JRef a \<Longrightarrow> a < nxt w) \<Longrightarrow>
   d \<in> set ds \<Longrightarrow> dvalue d = JRef a \<Longrightarrow>
   has_key ''attribute'' (heap w' a) \<and> has_key ''messageResolver'' (heap w' a)"
proof (induction ds arbitrary: w vs)
  case Nil
  then show ?case by simp
next
  case (Cons x xs)
  obtain v w1 where 1: "lookupValidator container x w = Inr (v, w1)"
    using Cons.prems(1) by (auto split: sum.splits)
  obtain vs' where 2: "lookup_all container xs w1 = Inr (vs', w')"
    using Cons.prems(1) 1 by (auto split: sum.splits)
  have k1: "keeps_keys w w1" using 1 by (rule lookupValidator_keeps)
  have k2: "keeps_keys w1 w'" using 2 by (rule lookup_all_keeps)
  have n1: "nxt w \<le> nxt w1" using k1 by (simp add: keeps_keys_def)
  show ?case
  proof (cases "d = x")
    case True
    have "desc_ok container x"
      using 1 lookupValidator_ok_iff [of container x w] by auto
    then obtain c where c: "lookupValidtorFactory container (dtype x) = JFun c"
      by (auto simp: desc_ok_def js_typeof_function)
    have xa: "dvalue x = JRef a" using True Cons.prems(4) by simp
    have "heap w1 a = merge_config (dattribute x) (lookupMessageResolver container) (heap w a)"
      using 1 unfolding lookupValidator_object [OF c xa, of w] by auto
    then have h1: "has_key ''attribute'' (heap w1 a) \<and> has_key ''messageResolver'' (heap w1 a)"
      by (simp add: has_key_merge_config)
    have "a < nxt w1" using Cons.prems(2) [of x a] xa n1 by simp
    then show ?thesis using h1 k2 by (simp add: keeps_keys_def)
  next
    case False
    then have d: "d \<in> set xs" using Cons.prems(3) by simp
    show ?thesis
    proof (rule Cons.IH [OF 2 _ d Cons.prems(4)])
      fix d' a' assume "d' \<in> set xs" "dvalue d' = JRef a'"
      then show "a' < nxt w1" using Cons.prems(2) [of d' a'] n1 by simp
    qed
  qed
qed

lemma validateAttribute_merged:
  assumes run: "validateAttribute container m f w = Inr w'"
    and ds: "ruleDescriptors (heap w) (faddr f) = Inr ds"
    and bound: "\<And>d a. d \<in> set ds \<Longrightarrow> dvalue d = JRef a \<Longrightarrow> a < nxt w"
    and d: "d \<in> set ds" "dvalue d = JRef a"
  shows "has_key ''attribute'' (heap w' a) \<and> has_key ''messageResolver'' (heap w' a)"
proof -
  obtain vs w1 where la: "lookup_all container ds w = Inr (vs, w1)"
    using run ds by (auto simp: validateAttribute_def validatorsFor_def split: sum.splits)
  let ?w2 = "w1\<lparr>heap := (heap w1)(faddr f :=
               obj_set ''parentTypeKey'' (modelName m) (heap w1 (faddr f)))\<rparr>"
  have w': "w' = run_all container m (fname f) vs ?w2"
    using run ds la by (simp add: validateAttribute_def validatorsFor_def Let_def)
  have h1: "has_key ''attribute'' (heap w1 a) \<and> has_key ''messageResolver'' (heap w1 a)"
    using lookup_all_merged [OF la bound d] by simp
  have "heap w' = heap ?w2" unfolding w' by (simp only: run_all_frame)
  then show ?thesis using h1 by (cases "a = faddr f") (simp_all add: has_key_obj_set)
qed

lemma validate_fields_merged:
  assumes lay: "layout n0 S F V"
  shows "agrees h0 n0 S F V w \<Longrightarrow> list_all (covers h0 S F V) fs \<Longrightarrow>
         validate_fields container m fs w = Inr w' \<Longrightarrow>
         f \<in> set fs \<Longrightarrow> field_ok container h0 f \<Longrightarrow> a \<in> set (value_addrs h0 (faddr f)) \<Longrightarrow>
         has_key ''attribute'' (heap w' a) \<and> has_key ''messageResolver'' (heap w' a)"
proof (induction fs arbitrary: w)
  case Nil
  then show ?case by simp
next
  case (Cons x xs)
  have cx: "covers h0 S F V x" and cxs: "list_all (covers h0 S F V) xs"
    using Cons.prems(2) by simp_all
  show ?case
  proof (cases "validateAttribute container m x w")
    case (Inl e)
    have "\<not> field_ok container h0 x"
      using validateAttribute_raises [OF lay Cons.prems(1) cx, of container m] Inl by auto
    then have fx: "f \<in> set xs" using Cons.prems(4,5) by auto
    have 2: "validate_fields container m xs (raised_in container x w) = Inr w'"
      using Cons.prems(3) Inl by (simp split: if_splits)
    have a1: "agrees h0 n0 S F V (raised_in container x w)"
      using raised_in_agrees [OF lay Cons.prems(1) cx, of container] by simp
    show ?thesis by (rule Cons.IH [OF a1 cxs 2 fx Cons.prems(5,6)])
  next
    case (Inr w1)
    have 2: "validate_fields container m xs w1 = Inr w'"
      using Cons.prems(3) Inr by simp
    have a1: "agrees h0 n0 S F V w1"
      using validateAttribute_agrees [OF lay Cons.prems(1) cx Inr] by simp
    show ?thesis
    proof (cases "f = x")
      case False
      then have fx: "f \<in> set xs" using Cons.prems(4) by simp
      show ?thesis by (rule Cons.IH [OF a1 cxs 2 fx Cons.prems(5,6)])
    next
      case True
      obtain ds where ds0: "ruleDescriptors h0 (faddr x) = Inr ds"
        using Cons.prems(5) True by (auto simp: field_ok_def split: sum.splits)
      have ds: "ruleDescriptors (heap w) (faddr x) = Inr ds"
        using ruleDescriptors_agrees [OF Cons.prems(1) cx] ds0 by simp
      have bound: "\<And>d a. d \<in> set ds \<Longrightarrow> dvalue d = JRef a \<Longrightarrow> a < nxt w"
      proof -
        fix d a assume "d \<in> set ds" "dvalue d = JRef a"
        then have "JRef a \<in> set (map dvalue ds)" by force
        then have "a \<in> set (value_addrs h0 (faddr x))"
          by (simp add: value_addrs_def ds0 refs_mem)
        then have "a \<in> V" using cx by (auto simp: covers_def)
        then have "a < n0" using lay by (simp add: layout_def)
        then show "a < nxt w" using Cons.prems(1) by (simp add: agrees_def)
      qed
      have "JRef a \<in> set (map dvalue ds)"
        using Cons.prems(6) True by (simp add: value_addrs_def ds0 refs_mem)
      then obtain d where d: "d \<in> set ds" "dvalue d = JRef a" by auto
      have h1: "has_key ''attribute'' (heap w1 a) \<and> has_key ''messageResolver'' (heap w1 a)"
        by (rule validateAttribute_merged [OF Inr ds bound d])
      have "a < nxt w1"
        using bound [OF d] validateAttribute_keeps [OF Inr] by (simp add: keeps_keys_def)
      then show ?thesis
        using h1 validate_fields_keeps [OF 2] by (simp add: keeps_keys_def)
    qed
  qed
qed

lemma validate_merged:
  assumes sep: "separated (heap w) (nxt w) (map faddr (attributes m @ relationships m))"
    and nd: "\<not> isDeleted container (status (reset_invalid container w))"
    and run: "validate container m wc w = Inr (ok, w1)"
    and f: "f \<in> set (attributes m @ relationships m)"
    and ds: "ruleDescriptors (heap w) (faddr f) = Inr ds"
    and oks: "list_all (desc_ok container) ds"
    and d: "d \<in> set ds" "dvalue d = JRef a"
  shows "has_key ''attribute'' (heap w1 a) \<and> has_key ''messageResolver'' (heap w1 a)"
proof -
  let ?fs = "attributes m @ relationships m"
  let ?fl = "map faddr ?fs"
  let ?h = "heap w" and ?n = "nxt w"
  define S where "S = set (concat (map (struct_addrs ?h) ?fl))"
  define V where "V = set (concat (map (value_addrs ?h) ?fl))"
  define F where "F = set ?fl"
  have lay: "layout ?n S F V"
    unfolding S_def V_def F_def using sep by (rule separated_layout)
  have cov: "list_all (covers ?h S F V) ?fs"
    unfolding S_def V_def F_def list_all_iff
    by (intro ballI covers_member) auto
  let ?u = "mark_commit container wc (reset_invalid container w)"
  obtain w4 where fields: "validate_fields container m ?fs ?u = Inr w4"
    and res: "(ok, w1) = conclude container w4"
    using run nd by (auto simp: validate_steps split: sum.splits)
  have agr_u: "agrees ?h ?n S F V ?u"
    using agrees_frame [of ?u w ?h ?n S F V] agrees_initial [of w S F V]
    by (simp add: mark_commit_frame reset_invalid_frame)
  have ok_f: "field_ok container ?h f" using ds oks by (simp add: field_ok_def)
  have "JRef a \<in> set (map dvalue ds)" using d by force
  then have av: "a \<in> set (value_addrs ?h (faddr f))"
    by (simp add: value_addrs_def ds refs_mem)
  have "has_key ''attribute'' (heap w4 a) \<and> has_key ''messageResolver'' (heap w4 a)"
    by (rule validate_fields_merged [OF lay agr_u cov fields f ok_f av])
  moreover have "heap w1 = heap w4"
    using res conclude_frame(1) [of container w4] by (metis snd_conv)
  ultimately show ?thesis by simp
qed

text \<open>
  C10 (as amended). For a rule whose validator class is resolved: when the rule value is
  an object, the configuration given to the validator is that very object, no object is
  allocated, and the store changes at that object only, which now holds \<^verbatim>\<open>attribute\<close> and
  \<^verbatim>\<open>messageResolver\<close>; when the rule value is not of type object, the configuration is a
  newly allocated object and every other object is as before. After a validation pass that
  returned, on a record that is not deleted and whose declared metadata are laid out as
  separate objects, the object rule values of every field whose validators can all be
  built hold \<^verbatim>\<open>attribute\<close> and \<^verbatim>\<open>messageResolver\<close>; and no validation pass removes a key from
  an allocated object, so the merged keys stay in the declared metadata.
\<close>

theorem object_rule_values_are_mutated_in_place:
  assumes "lookupValidtorFactory container (dtype d) = JFun c"
  shows "(\<forall>a. dvalue d = JRef a \<longrightarrow>
            (\<exists>v w'. lookupValidator container d w = Inr (v, w')
               \<and> vconfig v = a \<and> nxt w' = nxt w
               \<and> heap w' = (heap w)(a := merge_config (dattribute d)
                                           (lookupMessageResolver container) (heap w a))
               \<and> has_key ''attribute'' (heap w' a) \<and> has_key ''messageResolver'' (heap w' a)))
       \<and> (js_typeof (dvalue d) \<noteq> ''object'' \<longrightarrow>
            (\<exists>v w'. lookupValidator container d w = Inr (v, w')
               \<and> vconfig v = nxt w \<and> nxt w' = Suc (nxt w)
               \<and> (\<forall>b. b \<noteq> nxt w \<longrightarrow> heap w' b = heap w b)))
       \<and> (\<forall>m wc w0 ok w1 f ds a.
              separated (heap w0) (nxt w0) (map faddr (attributes m @ relationships m))
              \<and> \<not> isDeleted container (status (reset_invalid container w0))
              \<and> validate container m wc w0 = Inr (ok, w1)
              \<and> f \<in> set (attributes m @ relationships m)
              \<and> ruleDescriptors (heap w0) (faddr f) = Inr ds
              \<and> list_all (desc_ok container) ds
              \<and> d \<in> set ds \<and> dvalue d = JRef a \<longrightarrow>
              has_key ''attribute'' (heap w1 a) \<and> has_key ''messageResolver'' (heap w1 a))
       \<and> (\<forall>m wc w2 ok w3 a k. validate container m wc w2 = Inr (ok, w3) \<and> a < nxt w2
              \<and> has_key k (heap w2 a) \<longrightarrow> has_key k (heap w3 a))"
proof (intro conjI allI impI)
  fix a assume a: "dvalue d = JRef a"
  show "\<exists>v w'. lookupValidator container d w = Inr (v, w')
               \<and> vconfig v = a \<and> nxt w' = nxt w
               \<and> heap w' = (heap w)(a := merge_config (dattribute d)
                                           (lookupMessageResolver container) (heap w a))
               \<and> has_key ''attribute'' (heap w' a) \<and> has_key ''messageResolver'' (heap w' a)"
    by (simp add: lookupValidator_object [OF assms a] has_key_merge_config)
next
  assume t: "js_typeof (dvalue d) \<noteq> ''object''"
  show "\<exists>v w'. lookupValidator container d w = Inr (v, w')
               \<and> vconfig v = nxt w \<and> nxt w' = Suc (nxt w)
               \<and> (\<forall>b. b \<noteq> nxt w \<longrightarrow> heap w' b = heap w b)"
    by (simp add: lookupValidator_scalar [OF assms t])
next
  fix m wc w0 ok w1 f ds a
  assume h: "separated (heap w0) (nxt w0) (map faddr (attributes m @ relationships m))
              \<and> \<not> isDeleted container (status (reset_invalid container w0))
              \<and> validate container m wc w0 = Inr (ok, w1)
              \<and> f \<in> set (attributes m @ relationships m)
              \<and> ruleDescriptors (heap w0) (faddr f) = Inr ds
              \<and> list_all (desc_ok container) ds
              \<and> d \<in> set ds \<and> dvalue d = JRef a"
  have r: "has_key ''attribute'' (heap w1 a) \<and> has_key ''messageResolver'' (heap w1 a)"
    by (rule validate_merged [of w0 m container wc ok w1 f ds d a]) (use h in blast)+
  show "has_key ''attribute'' (heap w1 a)" using r by simp
  show "has_key ''messageResolver'' (heap w1 a)" using r by simp
next
  fix m wc w2 ok w3 a k
  assume "validate container m wc w2 = Inr (ok, w3) \<and> a < nxt w2 \<and> has_key k (heap w2 a)"
  then show "has_key k (heap w3 a)"
    using validate_keeps [of container m wc w2 ok w3] by (auto simp: keeps_keys_def)
qed

theorem object_rule_values_are_mutated_in_place_witness:
  "map_sum id (\<lambda>(v, w'). (vconfig v, nxt w', heap w' 5))
     (lookupValidator ex_env range_rule (ex_world fresh_flags []))
     = Inr (5, 7, PlainObj [(''min'', JNum 0), (''attribute'', JRef 0),
                            (''messageResolver'', JRef 6)])
   \<and> map_sum id (\<lambda>(v, w'). (vconfig v, nxt w', heap w' 3))
     (lookupValidator ex_env numeric_rule (ex_world fresh_flags []))
     = Inr (7, 8, PlainObj [(''numeric'', JBool True)])
   \<and> map_sum id (has_key ''attribute'' \<circ> range_options \<circ> snd)
     (validate ex_env (ex_model (JStr ''abc'')) True (ex_world fresh_flags []))
     = Inr True"
proof -
  let ?m = "ex_model (JStr ''abc'')" and ?w = "ex_world fresh_flags []"
  have a: "lookupValidtorFactory ex_env (dtype numeric_rule) = JFun 0"
    and b: "lookupValidtorFactory ex_env (dtype range_rule) = JFun 1"
    by (simp_all add: lookupValidtorFactory_def js_or_def ex_env_def numeric_rule_def
          range_rule_def)
  note A = object_rule_values_are_mutated_in_place [OF a, of ?w]
  note B = object_rule_values_are_mutated_in_place [OF b, of ?w]
  have first: "map_sum id (\<lambda>(v, w'). (vconfig v, nxt w', heap w' 5))
                 (lookupValidator ex_env range_rule ?w)
                 = Inr (5, 7, PlainObj [(''min'', JNum 0), (''attribute'', JRef 0),
                                        (''messageResolver'', JRef 6)])
      \<and> map_sum id (\<lambda>(v, w'). (vconfig v, nxt w', heap w' 3))
                 (lookupValidator ex_env numeric_rule ?w)
                 = Inr (7, 8, PlainObj [(''numeric'', JBool True)])"
    using A B
    by (auto simp: merge_config_def lookupMessageResolver_def js_or_def
          ex_env_def ex_world_def ex_heap_def heap_of_def numeric_rule_def range_rule_def)
  obtain w1 where v: "validate ex_env ?m True ?w = Inr (False, w1)"
    by (simp add: ex_eval)
  have sep: "separated (heap ?w) (nxt ?w) (map faddr (attributes ?m @ relationships ?m))"
    by (simp add: separated_def struct_addrs_def value_addrs_def field_rules_def
          ruleDescriptors_def numeric_prop_def ex_model_def ex_world_def ex_heap_def
          heap_of_def Let_def)
  have nd: "\<not> isDeleted ex_env (status (reset_invalid ex_env ?w))"
    by (simp add: reset_invalid_def ex_env_def ex_world_def fresh_flags_def)
  have f: "age_field \<in> set (attributes ?m @ relationships ?m)"
    by (simp add: ex_model_def age_field_def)
  have ds: "ruleDescriptors (heap ?w) (faddr age_field) = Inr [numeric_rule, range_rule]"
    by (simp add: ruleDescriptors_def numeric_prop_def ex_world_def ex_heap_def heap_of_def
          age_field_def numeric_rule_def range_rule_def)
  have oks: "list_all (desc_ok ex_env) [numeric_rule, range_rule]"
    using a b by (simp add: desc_ok_def numeric_rule_def range_rule_def)
  have d: "range_rule \<in> set [numeric_rule, range_rule] \<and> dvalue range_rule = JRef 5"
    by (simp add: range_rule_def)
  have "has_key ''attribute'' (heap w1 5) \<and> has_key ''messageResolver'' (heap w1 5)"
    using B [THEN conjunct2, THEN conjunct2, THEN conjunct1, rule_format,
             where m = ?m and wc = True and ?w0.0 = ?w and ok = False and ?w1.0 = w1
               and f = age_field and ds = "[numeric_rule, range_rule]" and a = 5]
      sep nd v f ds oks d by simp
  then show ?thesis using first v by (simp add: range_options_def)
qed

text \<open>
  C10 as stated fails: the pass of a deleted record returns without building a validator,
  and the declared rule value \<^verbatim>\<open>{min: 0}\<close>, an object, is as it was before the pass.
\<close>

theorem deleted_record_is_not_merged:
  "ruleDescriptors ex_heap 0 = Inr [numeric_rule, range_rule]
   \<and> dvalue range_rule = JRef 5
   \<and> range_options (ex_world deleted_valid []) = PlainObj [(''min'', JNum 0)]
   \<and> map_sum id fst
        (validate ex_env (ex_model (JNum (-5))) True (ex_world deleted_valid [])) = Inr True
   \<and> map_sum id (range_options \<circ> snd)
        (validate ex_env (ex_model (JNum (-5))) True (ex_world deleted_valid []))
       = Inr (PlainObj [(''min'', JNum 0)])"
  by (simp add: validate_def ruleDescriptors_def numeric_prop_def range_options_def
        ex_env_def ex_world_def ex_heap_def heap_of_def deleted_valid_def
        numeric_rule_def range_rule_def Let_def)

end
